theory Spec2Isabelle
  imports
    Main
    "HOL-Library.Multiset"
    "HOL-Library.Signed_Division"
    "HOL-Library.Log_Nat"
begin

section \<open>Data model of main.go\<close>

text \<open>
  An instant (Go's \<^verbatim>\<open>time.Time\<close>) is the number of nanoseconds since the Unix epoch.
  Comparison (\<^verbatim>\<open>Before\<close>, \<^verbatim>\<open>After\<close>) and \<^verbatim>\<open>Sub\<close> read the instant only, and
  \<^verbatim>\<open>In(loc)\<close> leaves it unchanged, so the location is not part of the value.
\<close>

type_synonym Time = int

record Job =
  ID :: string
  Name :: string
  Status :: string
  Pipeline :: string
  Branch :: string
  Duration :: string
  Started :: string
  Organization :: string
  RunID :: int
  HTMLURL :: string
  CreatedAt :: Time

record DashboardStats =
  Success :: int
  Failed :: int
  Running :: int
  Pending :: int
  Total :: int

record RateLimitInfo =
  Remaining :: int
  Limit :: int
  ResetAt :: Time

record DashboardResponse =
  Stats :: DashboardStats
  Jobs :: "Job list"
  RateLimit :: RateLimitInfo

subsection \<open>Strings\<close>

text \<open>
  Strings are byte lists, as in Go. \<^verbatim>\<open>strings.ToLower\<close> has two paths. A string whose
  bytes are all below \<^verbatim>\<open>utf8.RuneSelf\<close> (128) is ASCII: its bytes \<^verbatim>\<open>A\<close>..\<^verbatim>\<open>Z\<close> become
  \<^verbatim>\<open>a\<close>..\<^verbatim>\<open>z\<close> and every other byte is kept. Any other string is passed to
  \<^verbatim>\<open>strings.Map(unicode.ToLower, s)\<close>, which decodes it and maps every code point
  through the case tables of the \<^verbatim>\<open>unicode\<close> package (U+0130, for one, becomes \<^verbatim>\<open>i\<close>).
  Those tables are not part of main.go: that second path is the parameter \<open>mapUnicode\<close>.
\<close>

definition toLowerByte :: "char \<Rightarrow> char" where
  "toLowerByte c =
     (let n = (of_char c :: nat) in if 65 \<le> n \<and> n \<le> 90 then char_of (n + 32) else c)"

definition isASCII :: "string \<Rightarrow> bool" where
  "isASCII s = list_all (\<lambda>c. (of_char c :: nat) < 128) s"

definition ToLower :: "(string \<Rightarrow> string) \<Rightarrow> string \<Rightarrow> string" where
  "ToLower mapUnicode s = (if isASCII s then map toLowerByte s else mapUnicode s)"

subsection \<open>Status normalisation (fetchWorkflowRuns, lines 297-315)\<close>

definition jobStatusOf :: "(string \<Rightarrow> string) \<Rightarrow> string \<Rightarrow> string option \<Rightarrow> string" where
  "jobStatusOf mapUnicode rawStatus rawConclusion =
     (let status = ToLower mapUnicode rawStatus;
          conclusion = (case rawConclusion of None \<Rightarrow> [] | Some c \<Rightarrow> ToLower mapUnicode c)
      in if status = ''completed'' then
           (if conclusion = ''success'' then ''success''
            else if conclusion = ''failure'' \<or> conclusion = ''cancelled'' then ''failed''
            else ''failed'')
         else if status = ''in_progress'' \<or> status = ''queued'' then ''running''
         else ''pending'')"

subsection \<open>calculateStats\<close>

definition countJob :: "Job \<Rightarrow> DashboardStats \<Rightarrow> DashboardStats" where
  "countJob job stats =
     (if Status job = ''success'' then stats\<lparr>Success := Success stats + 1\<rparr>
      else if Status job = ''failed'' then stats\<lparr>Failed := Failed stats + 1\<rparr>
      else if Status job = ''running'' then stats\<lparr>Running := Running stats + 1\<rparr>
      else if Status job = ''pending'' then stats\<lparr>Pending := Pending stats + 1\<rparr>
      else stats)"

definition calculateStats :: "Job list \<Rightarrow> DashboardStats" where
  "calculateStats jobs =
     fold countJob jobs
       \<lparr>Success = 0, Failed = 0, Running = 0, Pending = 0, Total = int (length jobs)\<rparr>"

subsection \<open>fmt.Sprintf verbs\<close>

text \<open>
  \<^verbatim>\<open>%d\<close> prints a decimal numeral with a leading minus sign for a negative number;
  \<^verbatim>\<open>%06d\<close> pads it with zeros after the sign to a width of six, sign included.
\<close>

fun digits :: "nat \<Rightarrow> string" where
  "digits n = (if n < 10 then [char_of (48 + n)] else digits (n div 10) @ [char_of (48 + n mod 10)])"

declare digits.simps [simp del]

definition fmt_d :: "int \<Rightarrow> string" where
  "fmt_d i = (if i < 0 then CHR ''-'' # digits (nat (- i)) else digits (nat i))"

definition fmt_06d :: "int \<Rightarrow> string" where
  "fmt_06d i =
     (if i < 0 then CHR ''-'' # replicate (5 - length (digits (nat (- i)))) CHR ''0'' @ digits (nat (- i))
      else replicate (6 - length (digits (nat i))) CHR ''0'' @ digits (nat i))"

subsection \<open>time.Duration and its float64 readings\<close>

text \<open>
  A \<^verbatim>\<open>time.Duration\<close> is an int64 count of nanoseconds. \<^verbatim>\<open>Time.Sub\<close> saturates at the
  ends of the int64 range.
\<close>

type_synonym Duration = int

definition maxDuration :: Duration where
  "maxDuration = 2 ^ 63 - 1"

definition minDuration :: Duration where
  "minDuration = - (2 ^ 63)"

definition Sub :: "Time \<Rightarrow> Time \<Rightarrow> Duration" where
  "Sub t u =
     (if t - u < minDuration then minDuration
      else if maxDuration < t - u then maxDuration
      else t - u)"

definition Second :: Duration where
  "Second = 1000000000"

definition Minute :: Duration where
  "Minute = 60 * Second"

definition Hour :: Duration where
  "Hour = 60 * Minute"

text \<open>
  \<^verbatim>\<open>Duration.Hours\<close>, \<^verbatim>\<open>Minutes\<close> and \<^verbatim>\<open>Seconds\<close> return a float64: the whole part
  converted, plus the remainder divided by the unit, every operation rounded to the
  nearest double with ties to the even significand. A double is modelled by the rational
  it denotes; \<open>float64\<close> rounds a rational to 53 significant bits. The exponent range is
  not modelled: the values below lie between \<open>2 powi (-42)\<close> and \<open>2 ^ 63\<close> in magnitude.
\<close>

definition roundHalfEven :: "rat \<Rightarrow> int" where
  "roundHalfEven q =
     (let m = \<lfloor>q\<rfloor>; r = q - of_int m
      in if r < 1 / 2 then m else if 1 / 2 < r then m + 1 else if even m then m else m + 1)"

definition ilog2 :: "rat \<Rightarrow> int" where
  "ilog2 x =
     (let k = bitlen (fst (quotient_of x)) - bitlen (snd (quotient_of x))
      in if 2 powi k \<le> x then k else k - 1)"

definition float64 :: "rat \<Rightarrow> rat" where
  "float64 x =
     (if x = 0 then 0
      else let e = ilog2 \<bar>x\<bar> - 52
           in sgn x * of_int (roundHalfEven (\<bar>x\<bar> / 2 powi e)) * 2 powi e)"

definition Hours :: "Duration \<Rightarrow> rat" where
  "Hours d =
     (let hour = d sdiv Hour; nsec = d smod Hour
      in float64 (of_int hour + float64 (of_int nsec / (60 * 60 * 1000000000))))"

definition Minutes :: "Duration \<Rightarrow> rat" where
  "Minutes d =
     (let min = d sdiv Minute; nsec = d smod Minute
      in float64 (of_int min + float64 (of_int nsec / (60 * 1000000000))))"

definition Seconds :: "Duration \<Rightarrow> rat" where
  "Seconds d =
     (let sec = d sdiv Second; nsec = d smod Second
      in float64 (of_int sec + float64 (of_int nsec / 1000000000)))"

text \<open>The conversion \<^verbatim>\<open>int(f)\<close> of a float64 truncates toward zero.\<close>

definition toInt :: "rat \<Rightarrow> int" where
  "toInt f = (if 0 \<le> f then \<lfloor>f\<rfloor> else \<lceil>f\<rceil>)"

subsection \<open>formatDuration, formatTimeAgo, pluralize\<close>

definition formatDuration :: "Time \<Rightarrow> Time \<Rightarrow> string" where
  "formatDuration start end' =
     (let duration = Sub end' start;
          hours = toInt (Hours duration);
          minutes = toInt (Minutes duration) smod 60;
          seconds = toInt (Seconds duration) smod 60
      in if hours > 0 then fmt_d hours @ ''h '' @ fmt_d minutes @ ''m '' @ fmt_d seconds @ ''s''
         else if minutes > 0 then fmt_d minutes @ ''m '' @ fmt_d seconds @ ''s''
         else fmt_d seconds @ ''s'')"

definition pluralize :: "int \<Rightarrow> string" where
  "pluralize n = (if n = 1 then [] else ''s'')"

text \<open>
  formatTimeAgo reads the clock once; \<open>formatTimeAgoAt now\<close> is its body after that read.
\<close>

definition formatTimeAgoAt :: "Time \<Rightarrow> Time \<Rightarrow> string" where
  "formatTimeAgoAt now t =
     (let diff = Sub now t;
          days = toInt (float64 (Hours diff / 24));
          hours = toInt (Hours diff);
          minutes = toInt (Minutes diff)
      in if days > 0 then fmt_d days @ '' day'' @ pluralize days @ '' ago''
         else if hours > 0 then fmt_d hours @ '' hour'' @ pluralize hours @ '' ago''
         else if minutes > 0 then fmt_d minutes @ '' minute'' @ pluralize minutes @ '' ago''
         else ''just now'')"

subsection \<open>Wall clock of a location\<close>

text \<open>
  \<^verbatim>\<open>Year\<close>, \<^verbatim>\<open>Month\<close>, \<^verbatim>\<open>Day\<close>, \<^verbatim>\<open>Clock\<close>, \<^verbatim>\<open>time.Date\<close> and \<^verbatim>\<open>AddDate\<close> of Go's time
  package, on the proleptic Gregorian calendar. Days are counted from 1970-01-01.

  A location is its zone lookup (\<^verbatim>\<open>Location.lookup\<close>): for a Unix second it gives the
  offset from UTC, in seconds east, that is in effect at that second, and the first and
  the one-past-last Unix second of the period over which that zone stays in effect. The
  offset of a location with daylight saving changes at its transitions. \<open>FixedZone\<close> is
  \<^verbatim>\<open>time.FixedZone\<close>: one offset for ever.
\<close>

type_synonym Location = "int \<Rightarrow> int \<times> int \<times> int"

definition FixedZone :: "int \<Rightarrow> Location" where
  "FixedZone offset = (\<lambda>sec. (offset, - (2 ^ 63), 2 ^ 63 - 1))"

definition zoneOffset :: "Location \<Rightarrow> int \<Rightarrow> int" where
  "zoneOffset loc sec = fst (loc sec)"

definition isLeap :: "int \<Rightarrow> bool" where
  "isLeap y = (y mod 4 = 0 \<and> (y mod 100 \<noteq> 0 \<or> y mod 400 = 0))"

definition daysBeforeYear :: "int \<Rightarrow> int" where
  "daysBeforeYear y =
     365 * (y - 1970) + ((y - 1) div 4 - (y - 1) div 100 + (y - 1) div 400) - 477"

definition daysBefore :: "int list" where
  "daysBefore = [0, 31, 59, 90, 120, 151, 181, 212, 243, 273, 304, 334]"

definition daysBeforeMonth :: "int \<Rightarrow> int \<Rightarrow> int" where
  "daysBeforeMonth y m = daysBefore ! nat (m - 1) + (if isLeap y \<and> 3 \<le> m then 1 else 0)"

lemma div_step:
  fixes y k :: int
  assumes "0 < k"
  shows "y div k = (y - 1) div k + (if y mod k = 0 then 1 else 0)"
proof (cases "y mod k = 0")
  case True
  have "y - 1 = k * (y div k - 1) + (k - 1)"
    using True by (simp add: algebra_simps) (metis mult_div_mod_eq add.right_neutral)
  then have "(y - 1) div k = y div k - 1"
    using assms by (intro int_div_pos_eq [where r = "k - 1"]) auto
  with True show ?thesis by simp
next
  case False
  moreover have "0 \<le> y mod k" "y mod k < k"
    using assms by simp_all
  ultimately have r: "1 \<le> y mod k" "y mod k < k"
    by linarith+
  have "y - 1 = k * (y div k) + (y mod k - 1)"
    by simp
  then have "(y - 1) div k = y div k"
    using r by (intro int_div_pos_eq [where r = "y mod k - 1"]) auto
  with False show ?thesis by simp
qed

lemma mod_400_100: "(y::int) mod 400 = 0 \<Longrightarrow> y mod 100 = 0"
proof -
  assume "y mod 400 = 0"
  then have "400 dvd y" by (simp add: dvd_eq_mod_eq_0)
  moreover have "(100::int) dvd 400" by simp
  ultimately have "100 dvd y" by (rule dvd_trans [rotated])
  then show ?thesis by (simp add: dvd_eq_mod_eq_0)
qed

lemma mod_100_4: "(y::int) mod 100 = 0 \<Longrightarrow> y mod 4 = 0"
proof -
  assume "y mod 100 = 0"
  then have "100 dvd y" by (simp add: dvd_eq_mod_eq_0)
  moreover have "(4::int) dvd 100" by simp
  ultimately have "4 dvd y" by (rule dvd_trans [rotated])
  then show ?thesis by (simp add: dvd_eq_mod_eq_0)
qed

lemma leap_count:
  fixes a b c :: int and p4 p100 p400 :: bool
  assumes "a = (if p4 then 1 else 0)" "b = (if p100 then 1 else 0)" "c = (if p400 then 1 else 0)"
    and "p400 \<Longrightarrow> p100" "p100 \<Longrightarrow> p4"
  shows "365 + a - b + c = (if p4 \<and> (\<not> p100 \<or> p400) then 366 else 365)"
  using assms by (cases p4; cases p100; cases p400) simp_all

lemma daysBeforeYear_Suc:
  "daysBeforeYear (y + 1) = daysBeforeYear y + (if isLeap y then 366 else 365)"
proof -
  define a where "a = y div 4 - (y - 1) div 4"
  define b where "b = y div 100 - (y - 1) div 100"
  define c where "c = y div 400 - (y - 1) div 400"
  have a: "a = (if y mod 4 = 0 then 1 else 0)"
    unfolding a_def using div_step [of 4 y] by (simp only: if_distrib split: if_splits) simp
  have b: "b = (if y mod 100 = 0 then 1 else 0)"
    unfolding b_def using div_step [of 100 y] by (simp only: if_distrib split: if_splits) simp
  have c: "c = (if y mod 400 = 0 then 1 else 0)"
    unfolding c_def using div_step [of 400 y] by (simp only: if_distrib split: if_splits) simp
  have "daysBeforeYear (y + 1) = daysBeforeYear y + (365 + a - b + c)"
    unfolding daysBeforeYear_def a_def b_def c_def by (simp only: add_diff_cancel_right') algebra
  also have "365 + a - b + c = (if isLeap y then 366 else 365)"
    unfolding isLeap_def by (rule leap_count [OF a b c]) (fact mod_400_100 mod_100_4)+
  finally show ?thesis .
qed

lemma daysBeforeYear_less: "daysBeforeYear y < daysBeforeYear (y + 1)"
  by (simp add: daysBeforeYear_Suc)

function yearFrom :: "int \<Rightarrow> int \<Rightarrow> int" where
  "yearFrom n y = (if daysBeforeYear (y + 1) \<le> n then yearFrom n (y + 1) else y)"
  by pat_completeness auto
termination
proof (relation "measure (\<lambda>(n, y). nat (n + 1 - daysBeforeYear (y + 1)))")
  show "wf (measure (\<lambda>(n, y). nat (n + 1 - daysBeforeYear (y + 1))))"
    by simp
next
  fix n y :: int
  assume "daysBeforeYear (y + 1) \<le> n"
  moreover have "daysBeforeYear (y + 1) < daysBeforeYear (y + 1 + 1)"
    by (rule daysBeforeYear_less)
  ultimately show "((n, y + 1), (n, y)) \<in> measure (\<lambda>(n, y). nat (n + 1 - daysBeforeYear (y + 1)))"
    by simp
qed

declare yearFrom.simps [simp del]

definition yearOfDay :: "int \<Rightarrow> int" where
  "yearOfDay n = yearFrom n (if 0 \<le> n then 1970 + n div 366 else 1970 + n div 365)"

definition monthOfYearDay :: "int \<Rightarrow> int \<Rightarrow> int" where
  "monthOfYearDay y yday =
     (case find (\<lambda>m. daysBeforeMonth y m \<le> yday) [12, 11, 10, 9, 8, 7, 6, 5, 4, 3, 2] of
        Some m \<Rightarrow> m
      | None \<Rightarrow> 1)"

definition localSeconds :: "Location \<Rightarrow> Time \<Rightarrow> int" where
  "localSeconds loc t = t div 1000000000 + zoneOffset loc (t div 1000000000)"

definition localDay :: "Location \<Rightarrow> Time \<Rightarrow> int" where
  "localDay loc t = localSeconds loc t div 86400"

definition secondOfDay :: "Location \<Rightarrow> Time \<Rightarrow> int" where
  "secondOfDay loc t = localSeconds loc t mod 86400"

definition Nanosecond :: "Time \<Rightarrow> int" where
  "Nanosecond t = t mod 1000000000"

definition Year :: "Location \<Rightarrow> Time \<Rightarrow> int" where
  "Year loc t = yearOfDay (localDay loc t)"

definition YearDay0 :: "Location \<Rightarrow> Time \<Rightarrow> int" where
  "YearDay0 loc t = localDay loc t - daysBeforeYear (Year loc t)"

definition Month :: "Location \<Rightarrow> Time \<Rightarrow> int" where
  "Month loc t = monthOfYearDay (Year loc t) (YearDay0 loc t)"

definition Day :: "Location \<Rightarrow> Time \<Rightarrow> int" where
  "Day loc t = YearDay0 loc t - daysBeforeMonth (Year loc t) (Month loc t) + 1"

text \<open>
  \<^verbatim>\<open>time.Date\<close> normalises a month outside 1..12 into the year; days, hours, minutes,
  seconds and nanoseconds outside their ranges carry over, which is the linear reading
  below. It then takes the wall-clock seconds \<open>unix\<close> for a Unix time, looks up the zone
  in effect then, and subtracts its offset; when the instant so obtained lies outside
  the period of that zone, it subtracts the offset in effect at that instant instead. A
  wall-clock reading that a change of offset skips or repeats is thereby given one of
  the two instants around the change.
\<close>

definition Date :: "int \<Rightarrow> int \<Rightarrow> int \<Rightarrow> int \<Rightarrow> int \<Rightarrow> int \<Rightarrow> int \<Rightarrow> Location \<Rightarrow> Time" where
  "Date year month day hour minute sec nsec loc =
     (let y = year + (month - 1) div 12;
          m = (month - 1) mod 12 + 1;
          d = daysBeforeYear y + daysBeforeMonth y m + (day - 1);
          unix = d * 86400 + hour * 3600 + minute * 60 + sec;
          (offset, start, end') = loc unix;
          offset' =
            (if offset \<noteq> 0 then
               (let utc = unix - offset
                in if utc < start \<or> end' \<le> utc then zoneOffset loc utc else offset)
             else offset)
      in (unix - offset') * 1000000000 + nsec)"

definition AddDate :: "Location \<Rightarrow> Time \<Rightarrow> int \<Rightarrow> int \<Rightarrow> int \<Rightarrow> Time" where
  "AddDate loc t years months days =
     Date (Year loc t + years) (Month loc t + months) (Day loc t + days)
       (secondOfDay loc t div 3600) (secondOfDay loc t mod 3600 div 60) (secondOfDay loc t mod 60)
       (Nanosecond t) loc"

subsection \<open>The build API, the clock and the sort: what the program calls\<close>

text \<open>
  The fields of \<^verbatim>\<open>github.Repository\<close>, \<^verbatim>\<open>github.WorkflowRun\<close> and \<^verbatim>\<open>github.Rate\<close> that
  main.go reads. A pointer field is an option; \<open>None\<close> is the nil pointer.
\<close>

record Repository =
  repo_Name :: "string option"
  repo_PushedAt :: "Time option"
  repo_UpdatedAt :: "Time option"

record WorkflowRun =
  run_ID :: "int option"
  run_Name :: "string option"
  run_RunNumber :: "int option"
  run_Status :: "string option"
  run_Conclusion :: "string option"
  run_HeadBranch :: "string option"
  run_RunStartedAt :: "Time option"
  run_CreatedAt :: "Time option"
  run_UpdatedAt :: "Time option"
  run_HTMLURL :: "string option"

record Rate =
  rate_Limit :: int
  rate_Remaining :: int
  rate_Reset :: Time

text \<open>
  Everything outside main.go that a fetch cycle calls. The world \<open>'w\<close> is whatever the
  clock and the remote API depend on; a clock read or an API call returns its result and
  the world after it. An API call returns \<open>Inl err\<close> for a non-nil error, else the
  listing and the response's rate (\<open>None\<close> for a nil response). \<open>sort_Slice\<close> is
  \<^verbatim>\<open>sort.Slice\<close>, applied to a slice and its less function. \<open>Local\<close> is the location of
  the instants \<^verbatim>\<open>time.Now\<close> returns. \<open>Map_unicode_ToLower\<close> is
  \<^verbatim>\<open>strings.Map(unicode.ToLower, s)\<close>, the path of \<^verbatim>\<open>strings.ToLower\<close> for a string that is
  not ASCII. Log output is not modelled.
\<close>

record 'w sys =
  Local :: Location
  time_Now :: "'w \<Rightarrow> Time \<times> 'w"
  ListByOrg :: "string \<Rightarrow> 'w \<Rightarrow> (string + Repository list \<times> Rate option) \<times> 'w"
  ListRepositoryWorkflowRuns ::
    "string \<Rightarrow> string \<Rightarrow> 'w \<Rightarrow> (string + WorkflowRun list \<times> Rate option) \<times> 'w"
  sort_Slice :: "(Job \<Rightarrow> Job \<Rightarrow> bool) \<Rightarrow> Job list \<Rightarrow> Job list"
  Map_unicode_ToLower :: "string \<Rightarrow> string"

text \<open>
  Dereferencing a nil pointer panics; the handler then writes no response. \<open>Panic\<close> is
  that outcome, \<open>Return\<close> the normal one.
\<close>

datatype 'a outcome = Panic | Return 'a

fun forEach :: "('a \<Rightarrow> 's \<Rightarrow> 's outcome) \<Rightarrow> 'a list \<Rightarrow> 's \<Rightarrow> 's outcome" where
  "forEach body [] s = Return s"
| "forEach body (x # xs) s = (case body x s of Panic \<Rightarrow> Panic | Return s' \<Rightarrow> forEach body xs s')"

definition formatTimeAgo :: "'w sys \<Rightarrow> Time \<Rightarrow> 'w \<Rightarrow> string \<times> 'w" where
  "formatTimeAgo S t w = (let (now, w') = time_Now S w in (formatTimeAgoAt now t, w'))"

subsection \<open>fetchWorkflowRuns\<close>

text \<open>The switch on the period (lines 145-156) and the end of the "today" window.\<close>

definition startTimeOf :: "Location \<Rightarrow> Time \<Rightarrow> string \<Rightarrow> Time" where
  "startTimeOf loc now period =
     (if period = ''today'' then Date (Year loc now) (Month loc now) (Day loc now) 1 0 0 0 loc
      else if period = ''week'' then AddDate loc now 0 0 (- 7)
      else if period = ''month'' then Date (Year loc now) (Month loc now) 1 0 0 0 0 loc
      else AddDate loc now 0 0 (- 7))"

definition endTimeOf :: "Location \<Rightarrow> Time \<Rightarrow> Time" where
  "endTimeOf loc now = Date (Year loc now) (Month loc now) (Day loc now) 23 0 0 0 loc"

text \<open>The repository filter (lines 194-226): one repository of the listing.\<close>

definition repoInPeriod :: "Location \<Rightarrow> string \<Rightarrow> Time \<Rightarrow> Time \<Rightarrow> Repository \<Rightarrow> bool" where
  "repoInPeriod loc period now startTime repo =
     (let checkTime =
            (if repo_PushedAt repo \<noteq> None then repo_PushedAt repo
             else if repo_UpdatedAt repo \<noteq> None then repo_UpdatedAt repo
             else None)
      in case checkTime of
           None \<Rightarrow> False
         | Some checkTimeLocal \<Rightarrow>
             if \<not> checkTimeLocal < startTime then
               (if period = ''today'' then \<not> endTimeOf loc now < checkTimeLocal else True)
             else False)"

text \<open>The instant a run is filtered by (lines 272-279); \<open>None\<close> skips the run.\<close>

definition runTimeOf :: "WorkflowRun \<Rightarrow> Time option" where
  "runTimeOf run =
     (if run_RunStartedAt run \<noteq> None then run_RunStartedAt run
      else if run_CreatedAt run \<noteq> None then run_CreatedAt run
      else None)"

text \<open>The window test of a run (lines 284-295): \<open>True\<close> when the run is kept.\<close>

definition runInPeriod :: "Location \<Rightarrow> string \<Rightarrow> Time \<Rightarrow> Time \<Rightarrow> Time \<Rightarrow> bool" where
  "runInPeriod loc period now startTime runTimeLocal =
     (if runTimeLocal < startTime then False
      else if period = ''today'' then (if endTimeOf loc now < runTimeLocal then False else True)
      else True)"

text \<open>The duration of a run (lines 317-329).\<close>

definition runDuration :: "'w sys \<Rightarrow> WorkflowRun \<Rightarrow> 'w \<Rightarrow> string \<times> 'w" where
  "runDuration S run w =
     (if run_UpdatedAt run \<noteq> None \<and> run_RunStartedAt run \<noteq> None then
        (formatDuration (the (run_RunStartedAt run)) (the (run_UpdatedAt run)), w)
      else if run_CreatedAt run \<noteq> None then
        (if run_UpdatedAt run \<noteq> None then
           (formatDuration (the (run_CreatedAt run)) (the (run_UpdatedAt run)), w)
         else (let (now, w') = time_Now S w in (formatDuration (the (run_CreatedAt run)) now, w')))
      else (''N/A'', w))"

text \<open>The relative start of a run (lines 331-339).\<close>

definition runStarted :: "'w sys \<Rightarrow> WorkflowRun \<Rightarrow> 'w \<Rightarrow> string \<times> 'w" where
  "runStarted S run w =
     (if run_RunStartedAt run \<noteq> None then formatTimeAgo S (the (run_RunStartedAt run)) w
      else if run_CreatedAt run \<noteq> None then formatTimeAgo S (the (run_CreatedAt run)) w
      else (''N/A'', w))"

text \<open>
  The Job of a run that passed the window test (lines 297-381). The status, the name and
  the id are dereferenced without a nil check.
\<close>

definition makeJob :: "'w sys \<Rightarrow> string \<Rightarrow> string \<Rightarrow> WorkflowRun \<Rightarrow> 'w \<Rightarrow> (Job \<times> 'w) outcome" where
  "makeJob S orgName repoName run w =
     (case run_Status run of
        None \<Rightarrow> Panic
      | Some rawStatus \<Rightarrow>
          let jobStatus = jobStatusOf (Map_unicode_ToLower S) rawStatus (run_Conclusion run);
              (duration, w1) = runDuration S run w;
              (started, w2) = runStarted S run w1
          in case run_Name run of
               None \<Rightarrow> Panic
             | Some name \<Rightarrow>
                 let jobName =
                       (case run_RunNumber run of
                          None \<Rightarrow> name
                        | Some n \<Rightarrow> name @ '' #'' @ fmt_d n)
                 in case run_ID run of
                      None \<Rightarrow> Panic
                    | Some runID \<Rightarrow>
                        let jobID = ''JOB-'' @ fmt_06d runID;
                            branch = (case run_HeadBranch run of None \<Rightarrow> ''N/A'' | Some b \<Rightarrow> b);
                            (createdAt, w3) =
                              (case run_CreatedAt run of
                                 Some c \<Rightarrow> (c, w2)
                               | None \<Rightarrow> time_Now S w2);
                            htmlURL =
                              (case run_HTMLURL run of
                                 Some u \<Rightarrow> u
                               | None \<Rightarrow>
                                   ''https://github.com/'' @ orgName @ ''/'' @ repoName
                                   @ ''/actions/runs/'' @ fmt_d runID)
                        in Return
                             (\<lparr>ID = jobID, Name = jobName, Status = jobStatus,
                               Pipeline = repoName, Branch = branch, Duration = duration,
                               Started = started, Organization = orgName, RunID = runID,
                               HTMLURL = htmlURL, CreatedAt = createdAt\<rparr>, w3))"

text \<open>One iteration of the loop over the runs of a repository (lines 270-384).\<close>

definition processRun ::
  "'w sys \<Rightarrow> string \<Rightarrow> Time \<Rightarrow> Time \<Rightarrow> string \<Rightarrow> string \<Rightarrow> WorkflowRun
     \<Rightarrow> Job list \<times> 'w \<Rightarrow> (Job list \<times> 'w) outcome" where
  "processRun S period now startTime orgName repoName run acc =
     (case acc of (allJobs, w) \<Rightarrow>
        (case runTimeOf run of
           None \<Rightarrow> Return (allJobs, w)
         | Some runTimeLocal \<Rightarrow>
             if \<not> runInPeriod (Local S) period now startTime runTimeLocal then Return (allJobs, w)
             else (case makeJob S orgName repoName run w of
                     Panic \<Rightarrow> Panic
                   | Return (job, w') \<Rightarrow> Return (allJobs @ [job], w'))))"

definition rateLimitInfoOf :: "Rate \<Rightarrow> RateLimitInfo" where
  "rateLimitInfoOf rate =
     \<lparr>Remaining = rate_Remaining rate, Limit = rate_Limit rate, ResetAt = rate_Reset rate\<rparr>"

text \<open>
  One iteration of the loop over the filtered repositories (lines 239-385). The
  repository name is dereferenced for the log line before the call.
\<close>

definition processRepo ::
  "'w sys \<Rightarrow> string \<Rightarrow> Time \<Rightarrow> Time \<Rightarrow> string \<Rightarrow> Repository
     \<Rightarrow> Job list \<times> RateLimitInfo option \<times> 'w \<Rightarrow> (Job list \<times> RateLimitInfo option \<times> 'w) outcome" where
  "processRepo S period now startTime orgName repo acc =
     (case acc of (allJobs, rateLimitInfo, w) \<Rightarrow>
        (case repo_Name repo of
           None \<Rightarrow> Panic
         | Some repoName \<Rightarrow>
             (case ListRepositoryWorkflowRuns S orgName repoName w of
                (Inl err, w1) \<Rightarrow> Return (allJobs, rateLimitInfo, w1)
              | (Inr (workflowRuns, resp), w1) \<Rightarrow>
                  let rateLimitInfo' =
                        (case resp of
                           Some rate \<Rightarrow> Some (rateLimitInfoOf rate)
                         | None \<Rightarrow> rateLimitInfo)
                  in case forEach (processRun S period now startTime orgName repoName)
                            workflowRuns (allJobs, w1) of
                       Panic \<Rightarrow> Panic
                     | Return (allJobs', w2) \<Rightarrow> Return (allJobs', rateLimitInfo', w2))))"

text \<open>One iteration of the loop over the organizations (lines 161-389).\<close>

definition processOrg ::
  "'w sys \<Rightarrow> string \<Rightarrow> Time \<Rightarrow> Time \<Rightarrow> string
     \<Rightarrow> Job list \<times> RateLimitInfo option \<times> 'w \<Rightarrow> (Job list \<times> RateLimitInfo option \<times> 'w) outcome" where
  "processOrg S period now startTime orgName acc =
     (case acc of (allJobs, rateLimitInfo, w) \<Rightarrow>
        (case ListByOrg S orgName w of
           (Inl err, w1) \<Rightarrow> Return (allJobs, rateLimitInfo, w1)
         | (Inr (repos, resp), w1) \<Rightarrow>
             let rateLimitInfo' =
                   (case resp of
                      Some rate \<Rightarrow> Some (rateLimitInfoOf rate)
                    | None \<Rightarrow> rateLimitInfo);
                 filteredRepos = filter (repoInPeriod (Local S) period now startTime) repos
             in forEach (processRepo S period now startTime orgName) filteredRepos
                  (allJobs, rateLimitInfo', w1)))"

text \<open>The less function handed to \<^verbatim>\<open>sort.Slice\<close> (lines 394-396).\<close>

definition createdAfter :: "Job \<Rightarrow> Job \<Rightarrow> bool" where
  "createdAfter a b = (CreatedAt b < CreatedAt a)"

definition defaultRateLimit :: "Time \<Rightarrow> RateLimitInfo" where
  "defaultRateLimit now = \<lparr>Remaining = 5000, Limit = 5000, ResetAt = now + 1 * Hour\<rparr>"

text \<open>
  fetchWorkflowRuns returns the jobs, the rate limit (a pointer) and the error (\<open>None\<close> is
  nil), and the world after the cycle.
\<close>

definition fetchWorkflowRuns ::
  "'w sys \<Rightarrow> string list \<Rightarrow> string \<Rightarrow> 'w
     \<Rightarrow> ((Job list \<times> RateLimitInfo option \<times> string option) \<times> 'w) outcome" where
  "fetchWorkflowRuns S orgNames period w =
     (let (now, w0) = time_Now S w;
          startTime = startTimeOf (Local S) now period
      in case forEach (processOrg S period now startTime) orgNames ([], None, w0) of
           Panic \<Rightarrow> Panic
         | Return (allJobs, rateLimitInfo, w1) \<Rightarrow>
             let sorted = sort_Slice S createdAfter allJobs;
                 (rateLimitInfo', w2) =
                   (case rateLimitInfo of
                      None \<Rightarrow> (let (t, w') = time_Now S w1 in (Some (defaultRateLimit t), w'))
                    | Some r \<Rightarrow> (Some r, w1))
             in Return ((sorted, rateLimitInfo', None), w2))"

subsection \<open>dashboardHandler\<close>

text \<open>
  What the handler writes: an error status with its message, or the JSON response. The
  log lines are not modelled; the two clock reads that time the cycle for the log
  (\<^verbatim>\<open>time.Now\<close> on line 446 and \<^verbatim>\<open>time.Since\<close> on line 448) are, as reads whose value
  is dropped.
\<close>

datatype HttpResult = HttpError nat string | HttpOK DashboardResponse

definition periodOfQuery :: "string \<Rightarrow> string" where
  "periodOfQuery q =
     (let period = (if q = [] then ''week'' else q)
      in if period \<noteq> ''today'' \<and> period \<noteq> ''week'' \<and> period \<noteq> ''month'' then ''week''
         else period)"

definition dashboardHandler ::
  "'w sys \<Rightarrow> string list \<Rightarrow> string \<Rightarrow> 'w \<Rightarrow> (HttpResult \<times> 'w) outcome" where
  "dashboardHandler S orgNames query w =
     (let period = periodOfQuery query;
          (startTime, wa) = time_Now S w
      in case fetchWorkflowRuns S orgNames period wa of
           Panic \<Rightarrow> Panic
         | Return ((jobs, rateLimit, err), wb) \<Rightarrow>
             let (endTime, w1) = time_Now S wb
             in (case err of
                   Some e \<Rightarrow> Return (HttpError 500 (''Error fetching workflow runs: '' @ e), w1)
                 | None \<Rightarrow>
                     let stats = calculateStats jobs;
                         (rateLimit', w2) =
                           (case rateLimit of
                              None \<Rightarrow> (let (t, w') = time_Now S w1 in (defaultRateLimit t, w'))
                            | Some r \<Rightarrow> (r, w1))
                     in Return (HttpOK \<lparr>Stats = stats, Jobs = jobs, RateLimit = rateLimit'\<rparr>, w2)))"

subsection \<open>sort.Slice of the Go library (sort/zsortfunc.go, pattern-defeating quicksort)\<close>

text \<open>
  What \<^verbatim>\<open>sort.Slice(allJobs, less)\<close> runs since Go 1.19: the slice is a list, an index an
  \<open>int\<close>, and every function returns the slice it has changed.
\<close>







































section \<open>Devices for stating the properties\<close>

subsection \<open>Words up to the case of their letters\<close>

text \<open>
  \<open>sameWord s k\<close>: the string \<open>s\<close> spells the word \<open>k\<close>, byte by byte, where a lower-case
  ASCII letter of \<open>k\<close> may stand in upper case in \<open>s\<close>.
\<close>

definition sameWord :: "string \<Rightarrow> string \<Rightarrow> bool" where
  "sameWord s k =
     list_all2
       (\<lambda>c d. c = d
          \<or> (97 \<le> (of_char d :: nat) \<and> (of_char d :: nat) \<le> 122 \<and> (of_char c :: nat) + 32 = of_char d))
       s k"

subsection \<open>The contract of sort.Slice\<close>

text \<open>
  \<^verbatim>\<open>sort.Slice\<close> sorts the slice in the order of its less function and is documented as
  not guaranteed to be stable. The contract, for the less function of main.go: the result
  is a rearrangement of the slice in which no later job is created after an earlier one.
\<close>

definition sortSliceContract :: "((Job \<Rightarrow> Job \<Rightarrow> bool) \<Rightarrow> Job list \<Rightarrow> Job list) \<Rightarrow> bool" where
  "sortSliceContract srt =
     (\<forall>xs. mset (srt createdAfter xs) = mset xs
           \<and> sorted_wrt (\<lambda>a b. \<not> createdAfter b a) (srt createdAfter xs))"

text \<open>
  A sort that meets the contract, for the scripted world below: \<open>insertionSort\<close> takes the
  elements from the right and inserts each one before the first element that does not
  precede it, so that equal ones keep their order.
\<close>

fun insertBy :: "('a \<Rightarrow> 'a \<Rightarrow> bool) \<Rightarrow> 'a \<Rightarrow> 'a list \<Rightarrow> 'a list" where
  "insertBy lt x [] = [x]"
| "insertBy lt x (y # ys) = (if lt y x then y # insertBy lt x ys else x # y # ys)"

definition insertionSort :: "('a \<Rightarrow> 'a \<Rightarrow> bool) \<Rightarrow> 'a list \<Rightarrow> 'a list" where
  "insertionSort lt xs = foldr (insertBy lt) xs []"


subsection \<open>Recording what a cycle reads\<close>

text \<open>
  \<open>recording S\<close> behaves as \<open>S\<close> and appends to a trace every clock read and every API call
  with its result, in the order they are made.
\<close>

datatype event =
  ClockRead Time
| ListByOrgCall string "string + Repository list \<times> Rate option"
| ListRunsCall string string "string + WorkflowRun list \<times> Rate option"

definition recording :: "'w sys \<Rightarrow> ('w \<times> event list) sys" where
  "recording S =
     \<lparr>Local = Local S,
      time_Now = (\<lambda>(w, tr). let (t, w') = time_Now S w in (t, (w', tr @ [ClockRead t]))),
      ListByOrg = (\<lambda>org (w, tr).
         let (r, w') = ListByOrg S org w in (r, (w', tr @ [ListByOrgCall org r]))),
      ListRepositoryWorkflowRuns = (\<lambda>org repo (w, tr).
         let (r, w') = ListRepositoryWorkflowRuns S org repo w
         in (r, (w', tr @ [ListRunsCall org repo r]))),
      sort_Slice = sort_Slice S,
      Map_unicode_ToLower = Map_unicode_ToLower S\<rparr>"

text \<open>The rate snapshots that the successful calls of a trace reported, in call order.\<close>

fun reportedRate :: "event \<Rightarrow> Rate list" where
  "reportedRate (ListByOrgCall org (Inr (repos, Some rate))) = [rate]"
| "reportedRate (ListRunsCall org repo (Inr (runs, Some rate))) = [rate]"
| "reportedRate e = []"

definition reportedRates :: "event list \<Rightarrow> Rate list" where
  "reportedRates tr = concat (map reportedRate tr)"

fun clockRead :: "event \<Rightarrow> Time list" where
  "clockRead (ClockRead t) = [t]"
| "clockRead e = []"

definition clockReads :: "event list \<Rightarrow> Time list" where
  "clockReads tr = concat (map clockRead tr)"

text \<open>The runs that the successful run listings of a trace returned.\<close>

fun listedRun :: "event \<Rightarrow> WorkflowRun list" where
  "listedRun (ListRunsCall org repo (Inr (runs, resp))) = runs"
| "listedRun e = []"

definition listedRuns :: "event list \<Rightarrow> WorkflowRun list" where
  "listedRuns tr = concat (map listedRun tr)"

text \<open>
  A job stems from a listed run that started in a window: some run that a run listing of
  the trace returned has the id of the job, has the creation instant of the job unless it
  has none, and its start instant (the instant the run filter reads) lies between \<open>lo\<close>
  and \<open>hi\<close>.
\<close>

definition startedInWindow :: "Time \<Rightarrow> Time \<Rightarrow> event list \<Rightarrow> Job \<Rightarrow> bool" where
  "startedInWindow lo hi tr job =
     list_ex
       (\<lambda>run. run_ID run = Some (RunID job)
          \<and> (run_CreatedAt run = None \<or> run_CreatedAt run = Some (CreatedAt job))
          \<and> (case runTimeOf run of None \<Rightarrow> False | Some runTime \<Rightarrow> lo \<le> runTime \<and> runTime \<le> hi))
       (listedRuns tr)"

subsection \<open>The day of an instant\<close>

text \<open>
  The offset that \<^verbatim>\<open>time.Date\<close> subtracts from the wall-clock seconds \<open>unix\<close> in a
  location.
\<close>

definition dateOffset :: "Location \<Rightarrow> int \<Rightarrow> int" where
  "dateOffset loc unix =
     (let (offset, start, end') = loc unix
      in if offset \<noteq> 0 then
           (let utc = unix - offset
            in if utc < start \<or> end' \<le> utc then zoneOffset loc utc else offset)
         else offset)"

text \<open>
  The instant at which the local day of \<open>now\<close> begins (00:00:00 local time), counted with
  the offset in effect at \<open>now\<close>.
\<close>

definition dayStart :: "Location \<Rightarrow> Time \<Rightarrow> Time" where
  "dayStart loc now =
     (localDay loc now * 86400 - zoneOffset loc (now div 1000000000)) * 1000000000"

text \<open>
  The last snapshot of a list of reported rates, as the rate limit of a cycle; \<open>None\<close>
  when nothing was reported.
\<close>

definition lastRate :: "Rate list \<Rightarrow> RateLimitInfo option" where
  "lastRate rates = (if rates = [] then None else Some (rateLimitInfoOf (last rates)))"

text \<open>Forgetting the trace of an outcome whose state ends in the recorded world.\<close>

fun mapOutcome :: "('a \<Rightarrow> 'b) \<Rightarrow> 'a outcome \<Rightarrow> 'b outcome" where
  "mapOutcome f Panic = Panic"
| "mapOutcome f (Return x) = Return (f x)"

subsection \<open>A scripted world\<close>

text \<open>
  The world is the instant the clock shows. The listings are fixed tables, and the clock
  stands still during a cycle. The tables of the examples hold ASCII strings only, so
  the lower-casing of other strings is never asked for; it is left as the identity.
\<close>

definition scripted ::
  "Location \<Rightarrow> (string \<Rightarrow> string + Repository list \<times> Rate option)
     \<Rightarrow> (string \<Rightarrow> string \<Rightarrow> string + WorkflowRun list \<times> Rate option) \<Rightarrow> Time sys" where
  "scripted loc repos runs =
     \<lparr>Local = loc,
      time_Now = (\<lambda>w. (w, w)),
      ListByOrg = (\<lambda>org w. (repos org, w)),
      ListRepositoryWorkflowRuns = (\<lambda>org repo w. (runs org repo, w)),
      sort_Slice = insertionSort,
      Map_unicode_ToLower = (\<lambda>s. s)\<rparr>"

subsection \<open>Example cycles\<close>

text \<open>
  The cycles run at 2024-03-15 19:00:00 in a location seven hours east of UTC. Every
  organization but "beta" lists the repositories "api" and "web"; listing the
  repositories of "beta" fails, and listing the runs of "api" fails. The run of "web"
  was created at 18:59:55 on the day before, started at 17:00:00 and updated at 18:00:00
  on the day of the cycle.
\<close>

definition exampleNow :: Time where
  "exampleNow = 1710504000 * 1000000000"

definition exampleLoc :: Location where
  "exampleLoc = FixedZone (7 * 3600)"

text \<open>
  Two locations with daylight saving, by their zone tables for 2024; outside that year
  the standard offset is kept. America/New_York: UTC-5, and UTC-4 from 2024-03-10
  07:00:00 UTC to 2024-11-03 06:00:00 UTC. Europe/London: UTC, and UTC+1 from 2024-03-31
  01:00:00 UTC to 2024-10-27 01:00:00 UTC.
\<close>

definition newYork2024 :: Location where
  "newYork2024 sec =
     (if sec < 1710054000 then (- 18000, - (2 ^ 63), 1710054000)
      else if sec < 1730613600 then (- 14400, 1710054000, 1730613600)
      else (- 18000, 1730613600, 2 ^ 63 - 1))"

definition london2024 :: Location where
  "london2024 sec =
     (if sec < 1711846800 then (0, - (2 ^ 63), 1711846800)
      else if sec < 1729990800 then (3600, 1711846800, 1729990800)
      else (0, 1729990800, 2 ^ 63 - 1))"

text \<open>
  Noon of 2024-11-03 and noon of 2024-03-10 in New York, and noon of 2024-03-31 in
  London.
\<close>

definition nyNow :: Time where
  "nyNow = 1730653200 * 1000000000"

definition nySpringNow :: Time where
  "nySpringNow = 1710086400 * 1000000000"

definition londonNow :: Time where
  "londonNow = 1711882800 * 1000000000"

definition exampleRate :: "int \<Rightarrow> Rate" where
  "exampleRate remaining =
     \<lparr>rate_Limit = 5000, rate_Remaining = remaining, rate_Reset = exampleNow + 1800 * Second\<rparr>"

definition exampleRepo :: "string \<Rightarrow> Repository" where
  "exampleRepo name =
     \<lparr>repo_Name = Some name, repo_PushedAt = Some (exampleNow - Hour), repo_UpdatedAt = None\<rparr>"

definition exampleRun :: "int \<Rightarrow> WorkflowRun" where
  "exampleRun n =
     \<lparr>run_ID = Some n, run_Name = Some ''CI'', run_RunNumber = Some 7,
      run_Status = Some ''completed'', run_Conclusion = Some ''success'',
      run_HeadBranch = Some ''main'', run_RunStartedAt = Some (exampleNow - 2 * Hour),
      run_CreatedAt = Some (exampleNow - 24 * Hour - 5 * Second),
      run_UpdatedAt = Some (exampleNow - Hour), run_HTMLURL = None\<rparr>"

definition exampleRepos :: "string \<Rightarrow> string + Repository list \<times> Rate option" where
  "exampleRepos org =
     (if org = ''beta'' then Inl ''502 Bad Gateway''
      else Inr ([exampleRepo ''api'', exampleRepo ''web''], Some (exampleRate 4990)))"

definition exampleRuns :: "string \<Rightarrow> string \<Rightarrow> string + WorkflowRun list \<times> Rate option" where
  "exampleRuns org repo =
     (if repo = ''api'' then Inl ''404 Not Found''
      else Inr ([exampleRun (int (length org))], Some (exampleRate 4980)))"

definition exampleSys :: "Time sys" where
  "exampleSys = scripted exampleLoc exampleRepos exampleRuns"

text \<open>The job that the run of "web" in organization \<open>org\<close> becomes.\<close>

definition exampleJob :: "string \<Rightarrow> Job" where
  "exampleJob org =
     \<lparr>ID = ''JOB-00000'' @ fmt_d (int (length org)), Name = ''CI #7'', Status = ''success'',
      Pipeline = ''web'', Branch = ''main'', Duration = ''1h 0m 0s'', Started = ''2 hours ago'',
      Organization = org, RunID = int (length org),
      HTMLURL = ''https://github.com/'' @ org @ ''/web/actions/runs/'' @ fmt_d (int (length org)),
      CreatedAt = exampleNow - 24 * Hour - 5 * Second\<rparr>"


text \<open>
  A cycle of three API calls that report 100, 80 and 95 remaining requests: the
  repository listing of an organization, then the run listings of "api" and "web", which
  are empty.
\<close>

definition quotaRepos :: "string \<Rightarrow> string + Repository list \<times> Rate option" where
  "quotaRepos org = Inr ([exampleRepo ''api'', exampleRepo ''web''], Some (exampleRate 100))"

definition quotaRuns :: "string \<Rightarrow> string \<Rightarrow> string + WorkflowRun list \<times> Rate option" where
  "quotaRuns org repo = Inr ([], Some (exampleRate (if repo = ''api'' then 80 else 95)))"

definition quotaSys :: "Time sys" where
  "quotaSys = scripted exampleLoc quotaRepos quotaRuns"

section \<open>Status normalisation is a total four-way mapping\<close>

lemma jobStatusOf_cases:
  "jobStatusOf u s c = ''success'' \<or> jobStatusOf u s c = ''failed''
   \<or> jobStatusOf u s c = ''running'' \<or> jobStatusOf u s c = ''pending''"
  by (simp add: jobStatusOf_def Let_def)

lemma toLowerByte_eq:
  assumes "\<not> (65 \<le> (of_char d :: nat) \<and> (of_char d :: nat) \<le> 90)"
  shows "toLowerByte c = d \<longleftrightarrow>
         c = d \<or> (97 \<le> (of_char d :: nat) \<and> (of_char d :: nat) \<le> 122 \<and> (of_char c :: nat) + 32 = of_char d)"
proof (cases "65 \<le> (of_char c :: nat) \<and> (of_char c :: nat) \<le> 90")
  case True
  then have "c \<noteq> d" using assms by auto
  moreover have "toLowerByte c = d \<longleftrightarrow> (of_char c :: nat) + 32 = of_char d"
  proof -
    have "take_bit 8 ((of_char c :: nat) + 32) = of_char c + 32"
      using True by (simp add: take_bit_nat_eq_self_iff)
    then show ?thesis
      using True by (simp add: toLowerByte_def Let_def char_of_eq_iff)
  qed
  ultimately show ?thesis using True by auto
next
  case False
  then have "toLowerByte c = c" by (auto simp: toLowerByte_def Let_def)
  moreover have "\<not> (97 \<le> (of_char d :: nat) \<and> (of_char d :: nat) \<le> 122 \<and> (of_char c :: nat) + 32 = of_char d)"
    using False by auto
  ultimately show ?thesis by auto
qed

lemma lower_sameWord:
  assumes "list_all (\<lambda>d. \<not> (65 \<le> (of_char d :: nat) \<and> (of_char d :: nat) \<le> 90)) k"
  shows "map toLowerByte s = k \<longleftrightarrow> sameWord s k"
  using assms
proof (induction s arbitrary: k)
  case Nil
  then show ?case by (auto simp: sameWord_def)
next
  case (Cons c s)
  show ?case
  proof (cases k)
    case Nil
    then show ?thesis by (simp add: sameWord_def)
  next
    case (Cons d k')
    with Cons.prems have d: "\<not> (65 \<le> (of_char d :: nat) \<and> (of_char d :: nat) \<le> 90)"
      and k': "list_all (\<lambda>d. \<not> (65 \<le> (of_char d :: nat) \<and> (of_char d :: nat) \<le> 90)) k'"
      by simp_all
    have "map toLowerByte s = k' \<longleftrightarrow> sameWord s k'"
      using k' by (rule Cons.IH)
    then show ?thesis
      unfolding Cons by (simp add: sameWord_def toLowerByte_eq [OF d])
  qed
qed

lemma ToLower_ASCII:
  assumes "isASCII s"
  shows "ToLower u s = ''completed'' \<longleftrightarrow> sameWord s ''completed''"
    "ToLower u s = ''success'' \<longleftrightarrow> sameWord s ''success''"
    "ToLower u s = ''in_progress'' \<longleftrightarrow> sameWord s ''in_progress''"
    "ToLower u s = ''queued'' \<longleftrightarrow> sameWord s ''queued''"
  using assms by (simp_all add: ToLower_def lower_sameWord)

text \<open>
  C3. For every raw status and optional conclusion, compared after
  \<^verbatim>\<open>strings.ToLower\<close>, the normalised status is \<^verbatim>\<open>success\<close> exactly when the status is
  "completed" and the conclusion is "success", \<^verbatim>\<open>failed\<close> exactly when the status is
  "completed" and the conclusion is anything else or absent, \<^verbatim>\<open>running\<close> exactly when the
  status is "in_progress" or "queued", and \<^verbatim>\<open>pending\<close> exactly in every other case. The
  function is total, so each input has exactly one of the four values and nothing is
  raised. For a status and a conclusion that are ASCII strings the comparison is the one
  up to the case of the letters: the status is decided by which of the words the strings
  spell in any mix of upper and lower case.
\<close>

theorem jobStatusOf_total_mapping:
  "(jobStatusOf u s c = ''success'' \<longleftrightarrow>
      ToLower u s = ''completed'' \<and> map_option (ToLower u) c = Some ''success'')
   \<and> (jobStatusOf u s c = ''failed'' \<longleftrightarrow>
      ToLower u s = ''completed'' \<and> map_option (ToLower u) c \<noteq> Some ''success'')
   \<and> (jobStatusOf u s c = ''running'' \<longleftrightarrow>
      ToLower u s = ''in_progress'' \<or> ToLower u s = ''queued'')
   \<and> (jobStatusOf u s c = ''pending'' \<longleftrightarrow>
      ToLower u s \<noteq> ''completed'' \<and> ToLower u s \<noteq> ''in_progress'' \<and> ToLower u s \<noteq> ''queued'')
   \<and> jobStatusOf u s c \<in> {''success'', ''failed'', ''running'', ''pending''}
   \<and> (isASCII s \<and> (case c of None \<Rightarrow> True | Some x \<Rightarrow> isASCII x) \<longrightarrow>
      jobStatusOf u s c
      = (if sameWord s ''completed'' then
           (if (case c of None \<Rightarrow> False | Some x \<Rightarrow> sameWord x ''success'') then ''success''
            else ''failed'')
         else if sameWord s ''in_progress'' \<or> sameWord s ''queued'' then ''running''
         else ''pending''))"
proof -
  have general: "(jobStatusOf u s c = ''success'' \<longleftrightarrow>
      ToLower u s = ''completed'' \<and> map_option (ToLower u) c = Some ''success'')
   \<and> (jobStatusOf u s c = ''failed'' \<longleftrightarrow>
      ToLower u s = ''completed'' \<and> map_option (ToLower u) c \<noteq> Some ''success'')
   \<and> (jobStatusOf u s c = ''running'' \<longleftrightarrow>
      ToLower u s = ''in_progress'' \<or> ToLower u s = ''queued'')
   \<and> (jobStatusOf u s c = ''pending'' \<longleftrightarrow>
      ToLower u s \<noteq> ''completed'' \<and> ToLower u s \<noteq> ''in_progress'' \<and> ToLower u s \<noteq> ''queued'')
   \<and> jobStatusOf u s c \<in> {''success'', ''failed'', ''running'', ''pending''}"
    by (cases c) (auto simp: jobStatusOf_def Let_def)
  have ascii: "jobStatusOf u s c
      = (if sameWord s ''completed'' then
           (if (case c of None \<Rightarrow> False | Some x \<Rightarrow> sameWord x ''success'') then ''success''
            else ''failed'')
         else if sameWord s ''in_progress'' \<or> sameWord s ''queued'' then ''running''
         else ''pending'')"
    if "isASCII s \<and> (case c of None \<Rightarrow> True | Some x \<Rightarrow> isASCII x)"
  proof (cases c)
    case None
    with that show ?thesis
      by (simp add: jobStatusOf_def Let_def ToLower_ASCII)
  next
    case (Some x)
    with that show ?thesis
      by (simp add: jobStatusOf_def Let_def ToLower_ASCII)
  qed
  from general ascii show ?thesis by blast
qed

lemma ex_sameWord:
  "isASCII ''COMPLETED''" "isASCII ''Success''" "isASCII ''In_Progress''" "isASCII ''waiting''"
  "isASCII ''FAILURE''"
  "sameWord ''COMPLETED'' ''completed''" "sameWord ''Success'' ''success''"
  "\<not> sameWord ''FAILURE'' ''success''"
  "\<not> sameWord ''In_Progress'' ''completed''" "sameWord ''In_Progress'' ''in_progress''"
  "\<not> sameWord ''waiting'' ''completed''" "\<not> sameWord ''waiting'' ''in_progress''"
  "\<not> sameWord ''waiting'' ''queued''"
  by code_simp+

lemma ex_ToLower:
  "ToLower (\<lambda>s. s) ''COMPLETED'' = ''completed''"
  "ToLower (\<lambda>s. s) ''In_Progress'' = ''in_progress''"
  "ToLower (\<lambda>s. s) ''Queued #1 [x]'' = ''queued #1 [x]''"
  by code_simp+

theorem jobStatusOf_total_mapping_witness:
  "jobStatusOf (\<lambda>s. s) ''COMPLETED'' (Some ''Success'') = ''success''
   \<and> jobStatusOf (\<lambda>s. s) ''COMPLETED'' (Some ''FAILURE'') = ''failed''
   \<and> jobStatusOf (\<lambda>s. s) ''COMPLETED'' None = ''failed''
   \<and> jobStatusOf (\<lambda>s. s) ''In_Progress'' None = ''running''
   \<and> jobStatusOf (\<lambda>s. s) ''waiting'' (Some ''Success'') = ''pending''
   \<and> ToLower (\<lambda>s. s) ''COMPLETED'' = ''completed''
   \<and> ToLower (\<lambda>s. s) ''In_Progress'' = ''in_progress''"
proof -
  note a = jobStatusOf_total_mapping [of "\<lambda>s. s" "''COMPLETED''" "Some ''Success''"]
  note b = jobStatusOf_total_mapping [of "\<lambda>s. s" "''COMPLETED''" "Some ''FAILURE''"]
  note c = jobStatusOf_total_mapping [of "\<lambda>s. s" "''COMPLETED''" None]
  note d = jobStatusOf_total_mapping [of "\<lambda>s. s" "''In_Progress''" None]
  note e = jobStatusOf_total_mapping [of "\<lambda>s. s" "''waiting''" "Some ''Success''"]
  have "jobStatusOf (\<lambda>s. s) ''COMPLETED'' (Some ''Success'') = ''success''"
    using a ex_sameWord by simp
  moreover have "jobStatusOf (\<lambda>s. s) ''COMPLETED'' (Some ''FAILURE'') = ''failed''"
    using b ex_sameWord by simp
  moreover have "jobStatusOf (\<lambda>s. s) ''COMPLETED'' None = ''failed''"
    using c ex_sameWord by simp
  moreover have "jobStatusOf (\<lambda>s. s) ''In_Progress'' None = ''running''"
    using d ex_sameWord by simp
  moreover have "jobStatusOf (\<lambda>s. s) ''waiting'' (Some ''Success'') = ''pending''"
    using e ex_sameWord by simp
  ultimately show ?thesis by (simp add: ex_ToLower)
qed

section \<open>The counters add up to the total\<close>

lemma fold_countJob_Total:
  "Total (fold countJob jobs st) = Total st"
  by (induction jobs arbitrary: st) (simp_all add: countJob_def)

lemma fold_countJob_sum:
  assumes "\<forall>j \<in> set jobs. Status j \<in> {''success'', ''failed'', ''running'', ''pending''}"
  shows "Success (fold countJob jobs st) + Failed (fold countJob jobs st)
         + Running (fold countJob jobs st) + Pending (fold countJob jobs st)
         = Success st + Failed st + Running st + Pending st + int (length jobs)"
  using assms
proof (induction jobs arbitrary: st)
  case Nil
  then show ?case by simp
next
  case (Cons j jobs)
  have step: "Success (countJob j st) + Failed (countJob j st)
              + Running (countJob j st) + Pending (countJob j st)
              = Success st + Failed st + Running st + Pending st + 1"
    using Cons.prems by (auto simp: countJob_def)
  have "\<forall>j \<in> set jobs. Status j \<in> {''success'', ''failed'', ''running'', ''pending''}"
    using Cons.prems by simp
  from Cons.IH [OF this, of "countJob j st"] step show ?case by simp
qed

section \<open>The loops of a cycle\<close>

lemma forEach_append:
  "forEach body (xs @ ys) s = (case forEach body xs s of Panic \<Rightarrow> Panic | Return s' \<Rightarrow> forEach body ys s')"
  by (induction xs arbitrary: s) (auto split: outcome.splits)

lemma processRun_frame:
  "processRun S p now st org repo run (jobs, w) =
     (case processRun S p now st org repo run ([], w) of
        Panic \<Rightarrow> Panic
      | Return (new, w') \<Rightarrow> Return (jobs @ new, w'))"
  by (simp add: processRun_def split: option.splits outcome.splits prod.splits)

lemma runs_loop_frame:
  "forEach (processRun S p now st org repo) runs (jobs, w) =
     (case forEach (processRun S p now st org repo) runs ([], w) of
        Panic \<Rightarrow> Panic
      | Return (new, w') \<Rightarrow> Return (jobs @ new, w'))"
proof (induction runs arbitrary: jobs w)
  case Nil
  then show ?case by simp
next
  case (Cons run runs)
  show ?case
  proof (cases "processRun S p now st org repo run ([], w)")
    case Panic
    then show ?thesis by (simp add: processRun_frame [of _ _ _ _ _ _ _ jobs])
  next
    case (Return r)
    obtain new w' where r: "r = (new, w')" by (cases r)
    show ?thesis
      using Return r Cons.IH [of "jobs @ new" w'] Cons.IH [of new w']
      by (simp add: processRun_frame [of _ _ _ _ _ _ _ jobs] split: outcome.splits)
  qed
qed

lemma processRepo_frame:
  "processRepo S p now st org repo (jobs, rl, w) =
     (case processRepo S p now st org repo ([], rl, w) of
        Panic \<Rightarrow> Panic
      | Return (new, rl', w') \<Rightarrow> Return (jobs @ new, rl', w'))"
  by (simp add: processRepo_def runs_loop_frame [of _ _ _ _ _ _ _ jobs] Let_def
      split: option.splits outcome.splits prod.splits sum.splits)

lemma repos_loop_frame:
  "forEach (processRepo S p now st org) repos (jobs, rl, w) =
     (case forEach (processRepo S p now st org) repos ([], rl, w) of
        Panic \<Rightarrow> Panic
      | Return (new, rl', w') \<Rightarrow> Return (jobs @ new, rl', w'))"
proof (induction repos arbitrary: jobs rl w)
  case Nil
  then show ?case by simp
next
  case (Cons repo repos)
  show ?case
  proof (cases "processRepo S p now st org repo ([], rl, w)")
    case Panic
    then show ?thesis by (simp add: processRepo_frame [of _ _ _ _ _ _ jobs])
  next
    case (Return r)
    obtain new rl' w' where r: "r = (new, rl', w')" by (cases r)
    show ?thesis
      using Return r Cons.IH [of "jobs @ new" rl' w'] Cons.IH [of new rl' w']
      by (simp add: processRepo_frame [of _ _ _ _ _ _ jobs] split: outcome.splits)
  qed
qed

lemma processOrg_frame:
  "processOrg S p now st org (jobs, rl, w) =
     (case processOrg S p now st org ([], rl, w) of
        Panic \<Rightarrow> Panic
      | Return (new, rl', w') \<Rightarrow> Return (jobs @ new, rl', w'))"
  by (simp add: processOrg_def repos_loop_frame [of _ _ _ _ _ _ jobs] Let_def
      split: option.splits outcome.splits prod.splits sum.splits)

lemma processOrg_failed:
  "ListByOrg S org w = (Inl e, w1) \<Longrightarrow> processOrg S p now st org (jobs, rl, w) = Return (jobs, rl, w1)"
  by (simp add: processOrg_def)

lemma processRepo_failed:
  "repo_Name repo = Some name \<Longrightarrow> ListRepositoryWorkflowRuns S org name w = (Inl e, w1)
   \<Longrightarrow> processRepo S p now st org repo (jobs, rl, w) = Return (jobs, rl, w1)"
  by (simp add: processRepo_def)

lemma fetchWorkflowRuns_no_error:
  "fetchWorkflowRuns S orgs p w = Return ((jobs, rl, err), w') \<Longrightarrow> err = None \<and> rl \<noteq> None"
  unfolding fetchWorkflowRuns_def
  by (auto simp: Let_def split: prod.splits outcome.splits option.splits)

lemma dashboardHandler_ok:
  "dashboardHandler S orgs q w = Return (res, w') \<Longrightarrow> \<exists>resp. res = HttpOK resp"
  unfolding dashboardHandler_def
  by (auto simp: Let_def dest!: fetchWorkflowRuns_no_error split: prod.splits outcome.splits option.splits)

section \<open>Sorts that meet the contract\<close>

lemma mset_insertBy: "mset (insertBy lt x ys) = add_mset x (mset ys)"
  by (induction ys) simp_all

lemma set_insertBy: "set (insertBy lt x ys) = insert x (set ys)"
  by (induction ys) auto

lemma sorted_insertBy:
  assumes "sorted_wrt (\<lambda>a b. \<not> createdAfter b a) ys"
  shows "sorted_wrt (\<lambda>a b. \<not> createdAfter b a) (insertBy createdAfter x ys)"
  using assms
  by (induction ys) (auto simp: set_insertBy createdAfter_def)

lemma mset_foldr_insertBy: "mset (foldr (insertBy lt) xs []) = mset xs"
  by (induction xs) (simp_all add: mset_insertBy)

lemma sorted_foldr_insertBy:
  "sorted_wrt (\<lambda>a b. \<not> createdAfter b a) (foldr (insertBy createdAfter) xs [])"
  by (induction xs) (simp_all add: sorted_insertBy)

lemma insertionSort_contract: "sortSliceContract insertionSort"
  by (simp add: sortSliceContract_def insertionSort_def mset_foldr_insertBy sorted_foldr_insertBy)

lemma contract_set: "sortSliceContract srt \<Longrightarrow> set (srt createdAfter xs) = set xs"
  unfolding sortSliceContract_def by (metis set_mset_mset)

lemma makeJob_Status:
  "makeJob S org repo run w = Return (j, w')
   \<Longrightarrow> Status j = jobStatusOf (Map_unicode_ToLower S) (the (run_Status run)) (run_Conclusion run)"
  unfolding makeJob_def
  by (auto simp: Let_def split: option.splits prod.splits)

section \<open>The example cycles, evaluated\<close>

lemma exampleSys_simps:
  "Local exampleSys = exampleLoc"
  "time_Now exampleSys w = (w, w)"
  "ListByOrg exampleSys org w = (exampleRepos org, w)"
  "ListRepositoryWorkflowRuns exampleSys org repo w = (exampleRuns org repo, w)"
  "sort_Slice exampleSys = insertionSort"
  "Map_unicode_ToLower exampleSys = (\<lambda>s. s)"
  by (simp_all add: exampleSys_def scripted_def)

lemma ex_startTime_week: "startTimeOf exampleLoc exampleNow ''week'' = exampleNow - 168 * Hour"
  by code_simp

lemma ex_duration: "formatDuration (exampleNow - 2 * Hour) (exampleNow - Hour) = ''1h 0m 0s''"
  by code_simp

lemma ex_started: "formatTimeAgoAt exampleNow (exampleNow - 2 * Hour) = ''2 hours ago''"
  by code_simp

lemma ex_fmt: "fmt_06d 5 = ''000005''" "fmt_d 5 = ''5''" "fmt_d 7 = ''7''"
  by code_simp+

lemma ex_status: "jobStatusOf u ''completed'' (Some ''success'') = ''success''"
  by code_simp

lemma ex_makeJob:
  assumes "length org = 5"
  shows "makeJob exampleSys org ''web'' (exampleRun 5) exampleNow = Return (exampleJob org, exampleNow)"
  using assms
  by (simp add: makeJob_def runDuration_def runStarted_def formatTimeAgo_def exampleSys_simps
      exampleRun_def exampleJob_def ex_duration ex_started ex_fmt ex_status)

lemma ex_repoInPeriod:
  "repoInPeriod exampleLoc ''week'' exampleNow (exampleNow - 168 * Hour) (exampleRepo name)"
  by (simp add: repoInPeriod_def exampleRepo_def Hour_def Minute_def Second_def)

lemma ex_runInPeriod:
  "runTimeOf (exampleRun n) = Some (exampleNow - 2 * Hour)"
  "runInPeriod exampleLoc ''week'' exampleNow (exampleNow - 168 * Hour) (exampleNow - 2 * Hour)"
  by (simp_all add: runTimeOf_def runInPeriod_def exampleRun_def Hour_def Minute_def Second_def)

lemma ex_processRepo_api:
  "processRepo exampleSys ''week'' exampleNow (exampleNow - 168 * Hour) org
     (exampleRepo ''api'') (jobs, rl, exampleNow) = Return (jobs, rl, exampleNow)"
  by (simp add: processRepo_def exampleRepo_def exampleSys_simps exampleRuns_def)

lemma ex_processRepo_web:
  assumes "length org = 5"
  shows "processRepo exampleSys ''week'' exampleNow (exampleNow - 168 * Hour) org
           (exampleRepo ''web'') ([], rl, exampleNow)
         = Return ([exampleJob org], Some (rateLimitInfoOf (exampleRate 4980)), exampleNow)"
  using assms
  by (simp add: processRepo_def processRun_def exampleRepo_def exampleRuns_def ex_runInPeriod
      exampleSys_simps ex_makeJob)

lemma ex_processOrg:
  assumes "length org = 5" and "org \<noteq> ''beta''"
  shows "processOrg exampleSys ''week'' exampleNow (exampleNow - 168 * Hour) org ([], rl, exampleNow)
         = Return ([exampleJob org], Some (rateLimitInfoOf (exampleRate 4980)), exampleNow)"
  using assms
  by (simp add: processOrg_def exampleRepos_def ex_repoInPeriod exampleSys_simps
      ex_processRepo_api ex_processRepo_web)

lemma ex_processOrg_beta:
  "ListByOrg exampleSys ''beta'' exampleNow = (Inl ''502 Bad Gateway'', exampleNow)"
  by (simp add: exampleSys_simps exampleRepos_def)

lemma ex_handler_first_fails:
  "dashboardHandler exampleSys [''beta'', ''gamma''] ''week'' exampleNow
   = Return (HttpOK \<lparr>Stats = \<lparr>Success = 1, Failed = 0, Running = 0, Pending = 0, Total = 1\<rparr>,
                     Jobs = [exampleJob ''gamma''],
                     RateLimit = rateLimitInfoOf (exampleRate 4980)\<rparr>, exampleNow)"
  by (simp add: dashboardHandler_def periodOfQuery_def fetchWorkflowRuns_def exampleSys_simps
      ex_startTime_week processOrg_failed [OF ex_processOrg_beta] ex_processOrg insertionSort_def
      calculateStats_def countJob_def exampleJob_def)

lemma ex_handler_second_fails:
  "dashboardHandler exampleSys [''alpha'', ''beta'', ''gamma''] ''week'' exampleNow
   = Return (HttpOK \<lparr>Stats = \<lparr>Success = 2, Failed = 0, Running = 0, Pending = 0, Total = 2\<rparr>,
                     Jobs = [exampleJob ''alpha'', exampleJob ''gamma''],
                     RateLimit = rateLimitInfoOf (exampleRate 4980)\<rparr>, exampleNow)"
proof -
  have a: "processOrg exampleSys ''week'' exampleNow (exampleNow - 168 * Hour) ''alpha''
             ([], None, exampleNow)
           = Return ([exampleJob ''alpha''], Some (rateLimitInfoOf (exampleRate 4980)), exampleNow)"
    by (rule ex_processOrg) simp_all
  have g: "processOrg exampleSys ''week'' exampleNow (exampleNow - 168 * Hour) ''gamma''
             ([exampleJob ''alpha''], Some (rateLimitInfoOf (exampleRate 4980)), exampleNow)
           = Return ([exampleJob ''alpha'', exampleJob ''gamma''],
                     Some (rateLimitInfoOf (exampleRate 4980)), exampleNow)"
    by (subst processOrg_frame) (simp add: ex_processOrg)
  have s: "insertionSort createdAfter [exampleJob ''alpha'', exampleJob ''gamma'']
           = [exampleJob ''alpha'', exampleJob ''gamma'']"
    by (simp add: insertionSort_def createdAfter_def exampleJob_def)
  have c: "calculateStats [exampleJob ''alpha'', exampleJob ''gamma'']
           = \<lparr>Success = 2, Failed = 0, Running = 0, Pending = 0, Total = 2\<rparr>"
    by (simp add: calculateStats_def countJob_def exampleJob_def)
  show ?thesis
    by (simp add: dashboardHandler_def periodOfQuery_def fetchWorkflowRuns_def exampleSys_simps
        ex_startTime_week processOrg_failed [OF ex_processOrg_beta] a g s c)
qed

section \<open>Listing failures\<close>

lemma org_loop_skip:
  assumes "forEach (processOrg S period now st) pre acc = Return (jobs, rl, w)"
    and "ListByOrg S org w = (Inl e, w1)"
  shows "forEach (processOrg S period now st) (pre @ org # post) acc
         = forEach (processOrg S period now st) post (jobs, rl, w1)"
  using assms by (simp add: forEach_append processOrg_failed)

lemma repo_loop_skip:
  assumes "forEach (processRepo S period now st org) pre acc = Return (jobs, rl, w)"
    and "repo_Name repo = Some name"
    and "ListRepositoryWorkflowRuns S org name w = (Inl e, w1)"
  shows "forEach (processRepo S period now st org) (pre @ repo # post) acc
         = forEach (processRepo S period now st org) post (jobs, rl, w1)"
  using assms by (simp add: forEach_append processRepo_failed)

lemma three_orgs_second_fails:
  assumes start: "time_Now S w = (t0, wa)"
    and now: "time_Now S wa = (now, w0)"
    and st: "st = startTimeOf (Local S) now (periodOfQuery query)"
    and o1: "processOrg S (periodOfQuery query) now st o1 ([], None, w0) = Return (j1, r1, w1)"
    and o2: "ListByOrg S o2 w1 = (Inl e, w2)"
    and o3: "processOrg S (periodOfQuery query) now st o3 ([], r1, w2) = Return (j3, r3, w3)"
  shows "\<exists>rl w'. dashboardHandler S [o1, o2, o3] query w
           = Return (HttpOK \<lparr>Stats = calculateStats (sort_Slice S createdAfter (j1 @ j3)),
                             Jobs = sort_Slice S createdAfter (j1 @ j3),
                             RateLimit = rl\<rparr>, w')"
proof -
  let ?P = "periodOfQuery query"
  let ?st = "startTimeOf (Local S) now ?P"
  have o1': "processOrg S ?P now ?st o1 ([], None, w0) = Return (j1, r1, w1)"
    using o1 unfolding st .
  have o3': "processOrg S ?P now ?st o3 (j1, r1, w2) = Return (j1 @ j3, r3, w3)"
    using o3 unfolding st by (subst processOrg_frame) simp
  have loop: "forEach (processOrg S ?P now ?st) [o1, o2, o3] ([], None, w0)
              = Return (j1 @ j3, r3, w3)"
    by (simp add: o1' processOrg_failed [OF o2] o3')
  have fetch: "\<exists>rl w'. fetchWorkflowRuns S [o1, o2, o3] ?P wa
                 = Return ((sort_Slice S createdAfter (j1 @ j3), Some rl, None), w')"
    unfolding fetchWorkflowRuns_def
    by (cases r3; cases "time_Now S w3") (simp_all only: now loop Let_def prod.case outcome.case option.case, auto)
  then obtain rl w' where "fetchWorkflowRuns S [o1, o2, o3] ?P wa
                 = Return ((sort_Slice S createdAfter (j1 @ j3), Some rl, None), w')"
    by blast
  then show ?thesis
    by (cases "time_Now S w'") (simp add: dashboardHandler_def Let_def start)
qed

text \<open>
  C1 (as amended). fetchWorkflowRuns never returns an error, so dashboardHandler never
  answers with an error status: whenever it answers, the answer is a DashboardResponse.
  A failure of the first API call of a cycle, the repository listing of the first
  organization, is treated like every other listing failure: the organization is skipped
  and the cycle goes on with the remaining organizations, from the world after the call.
\<close>

theorem first_call_failure_is_not_fatal:
  "(fetchWorkflowRuns S orgNames period w = Return ((jobs, rl, err), w') \<longrightarrow> err = None)
   \<and> (dashboardHandler S orgNames query w = Return (res, w'') \<longrightarrow> (\<exists>resp. res = HttpOK resp))
   \<and> (ListByOrg S org w0 = (Inl e, w1) \<longrightarrow>
        forEach (processOrg S period now st) (org # orgs) ([], None, w0)
        = forEach (processOrg S period now st) orgs ([], None, w1))"
  using fetchWorkflowRuns_no_error [of S orgNames period w jobs rl err w']
    dashboardHandler_ok [of S orgNames query w res w'']
  by (simp add: processOrg_failed)

theorem first_call_failure_is_not_fatal_witness:
  "ListByOrg exampleSys ''beta'' exampleNow = (Inl ''502 Bad Gateway'', exampleNow)
   \<and> forEach (processOrg exampleSys ''week'' exampleNow (exampleNow - 168 * Hour))
        [''beta'', ''gamma''] ([], None, exampleNow)
      = forEach (processOrg exampleSys ''week'' exampleNow (exampleNow - 168 * Hour))
        [''gamma''] ([], None, exampleNow)
   \<and> (\<exists>resp. HttpOK \<lparr>Stats = \<lparr>Success = 1, Failed = 0, Running = 0, Pending = 0, Total = 1\<rparr>,
                        Jobs = [exampleJob ''gamma''],
                        RateLimit = rateLimitInfoOf (exampleRate 4980)\<rparr> = HttpOK resp)"
  using first_call_failure_is_not_fatal [of exampleSys "[''beta'', ''gamma'']" "''week''" exampleNow
      _ _ _ _ "''week''" _ _ "''beta''" exampleNow "''502 Bad Gateway''" exampleNow
      exampleNow "exampleNow - 168 * Hour" "[''gamma'']"]
    ex_processOrg_beta ex_handler_first_fails
  by simp

text \<open>
  The claim as stated fails: in the example cycle over the organizations "beta" and
  "gamma" the first API call, the repository listing of "beta", fails, and the handler
  answers with a DashboardResponse that holds the job of "gamma".
\<close>

theorem first_call_failure_counterexample:
  "ListByOrg exampleSys ''beta'' exampleNow = (Inl ''502 Bad Gateway'', exampleNow)
   \<and> dashboardHandler exampleSys [''beta'', ''gamma''] ''week'' exampleNow
     = Return (HttpOK \<lparr>Stats = \<lparr>Success = 1, Failed = 0, Running = 0, Pending = 0, Total = 1\<rparr>,
                       Jobs = [exampleJob ''gamma''],
                       RateLimit = rateLimitInfoOf (exampleRate 4980)\<rparr>, exampleNow)"
  using ex_processOrg_beta ex_handler_first_fails by simp

text \<open>
  C9. When listing the repositories of an organization fails, or listing the runs of a
  repository fails, at any position of the loop, that unit adds no job and leaves the
  rate limit as it was, and the loop goes on with the remaining units. No error is
  returned by the cycle. In particular, with three organizations of which the second
  fails its repository listing, the handler answers with a DashboardResponse whose jobs
  are the sorted jobs of the first and the third organization.
\<close>

theorem listing_failures_are_skipped:
  "(forEach (processOrg S period now st) pre acc = Return (jobs, rl, w)
      \<and> ListByOrg S org w = (Inl e, w1) \<longrightarrow>
      forEach (processOrg S period now st) (pre @ org # post) acc
      = forEach (processOrg S period now st) post (jobs, rl, w1))
   \<and> (forEach (processRepo S period now st org') rpre racc = Return (rjobs, rrl, rw)
      \<and> repo_Name repo = Some name
      \<and> ListRepositoryWorkflowRuns S org' name rw = (Inl re, rw1) \<longrightarrow>
      forEach (processRepo S period now st org') (rpre @ repo # rpost) racc
      = forEach (processRepo S period now st org') rpost (rjobs, rrl, rw1))
   \<and> (fetchWorkflowRuns S orgNames period fw = Return ((fjobs, frl, ferr), fw') \<longrightarrow> ferr = None)
   \<and> (time_Now S hw = (ht0, hwa) \<and> time_Now S hwa = (hnow, w0)
      \<and> processOrg S (periodOfQuery query) hnow (startTimeOf (Local S) hnow (periodOfQuery query))
          o1 ([], None, w0) = Return (j1, r1, hw1)
      \<and> ListByOrg S o2 hw1 = (Inl he, hw2)
      \<and> processOrg S (periodOfQuery query) hnow (startTimeOf (Local S) hnow (periodOfQuery query))
          o3 ([], r1, hw2) = Return (j3, r3, hw3) \<longrightarrow>
      (\<exists>hrl hw'. dashboardHandler S [o1, o2, o3] query hw
           = Return (HttpOK \<lparr>Stats = calculateStats (sort_Slice S createdAfter (j1 @ j3)),
                             Jobs = sort_Slice S createdAfter (j1 @ j3),
                             RateLimit = hrl\<rparr>, hw'))
      \<and> (sortSliceContract (sort_Slice S) \<longrightarrow>
           set (sort_Slice S createdAfter (j1 @ j3)) = set j1 \<union> set j3))"
proof (intro conjI impI)
  assume "forEach (processOrg S period now st) pre acc = Return (jobs, rl, w)
      \<and> ListByOrg S org w = (Inl e, w1)"
  then show "forEach (processOrg S period now st) (pre @ org # post) acc
      = forEach (processOrg S period now st) post (jobs, rl, w1)"
    by (simp add: forEach_append processOrg_failed)
next
  assume "forEach (processRepo S period now st org') rpre racc = Return (rjobs, rrl, rw)
      \<and> repo_Name repo = Some name
      \<and> ListRepositoryWorkflowRuns S org' name rw = (Inl re, rw1)"
  then show "forEach (processRepo S period now st org') (rpre @ repo # rpost) racc
      = forEach (processRepo S period now st org') rpost (rjobs, rrl, rw1)"
    by (simp add: forEach_append processRepo_failed)
next
  assume "fetchWorkflowRuns S orgNames period fw = Return ((fjobs, frl, ferr), fw')"
  then show "ferr = None"
    by (simp add: fetchWorkflowRuns_no_error)
next
  assume h: "time_Now S hw = (ht0, hwa) \<and> time_Now S hwa = (hnow, w0)
      \<and> processOrg S (periodOfQuery query) hnow (startTimeOf (Local S) hnow (periodOfQuery query))
          o1 ([], None, w0) = Return (j1, r1, hw1)
      \<and> ListByOrg S o2 hw1 = (Inl he, hw2)
      \<and> processOrg S (periodOfQuery query) hnow (startTimeOf (Local S) hnow (periodOfQuery query))
          o3 ([], r1, hw2) = Return (j3, r3, hw3)"
  then show "\<exists>hrl hw'. dashboardHandler S [o1, o2, o3] query hw
           = Return (HttpOK \<lparr>Stats = calculateStats (sort_Slice S createdAfter (j1 @ j3)),
                             Jobs = sort_Slice S createdAfter (j1 @ j3),
                             RateLimit = hrl\<rparr>, hw')"
    by (elim conjE) (rule three_orgs_second_fails [OF _ _ refl]; assumption)
next
  assume "sortSliceContract (sort_Slice S)"
  then show "set (sort_Slice S createdAfter (j1 @ j3)) = set j1 \<union> set j3"
    by (simp add: contract_set)
qed

lemma ex_periodOfQuery: "periodOfQuery ''week'' = ''week''"
  by (simp add: periodOfQuery_def)

theorem listing_failures_are_skipped_witness:
  "ListByOrg exampleSys ''beta'' exampleNow = (Inl ''502 Bad Gateway'', exampleNow)
   \<and> forEach (processOrg exampleSys ''week'' exampleNow (exampleNow - 168 * Hour))
        ([''alpha''] @ ''beta'' # [''gamma'']) ([], None, exampleNow)
      = forEach (processOrg exampleSys ''week'' exampleNow (exampleNow - 168 * Hour)) [''gamma'']
          ([exampleJob ''alpha''], Some (rateLimitInfoOf (exampleRate 4980)), exampleNow)
   \<and> ListRepositoryWorkflowRuns exampleSys ''alpha'' ''api'' exampleNow
      = (Inl ''404 Not Found'', exampleNow)
   \<and> forEach (processRepo exampleSys ''week'' exampleNow (exampleNow - 168 * Hour) ''alpha'')
        ([] @ exampleRepo ''api'' # [exampleRepo ''web'']) ([], None, exampleNow)
      = forEach (processRepo exampleSys ''week'' exampleNow (exampleNow - 168 * Hour) ''alpha'')
          [exampleRepo ''web''] ([], None, exampleNow)
   \<and> dashboardHandler exampleSys [''alpha'', ''beta'', ''gamma''] ''week'' exampleNow
      = Return (HttpOK \<lparr>Stats = \<lparr>Success = 2, Failed = 0, Running = 0, Pending = 0, Total = 2\<rparr>,
                        Jobs = [exampleJob ''alpha'', exampleJob ''gamma''],
                        RateLimit = rateLimitInfoOf (exampleRate 4980)\<rparr>, exampleNow)
   \<and> set (sort_Slice exampleSys createdAfter ([exampleJob ''alpha''] @ [exampleJob ''gamma'']))
      = set [exampleJob ''alpha''] \<union> set [exampleJob ''gamma'']"
proof -
  let ?st = "exampleNow - 168 * Hour"
  have a: "processOrg exampleSys ''week'' exampleNow ?st ''alpha'' ([], None, exampleNow)
           = Return ([exampleJob ''alpha''], Some (rateLimitInfoOf (exampleRate 4980)), exampleNow)"
    by (rule ex_processOrg) simp_all
  have g: "processOrg exampleSys ''week'' exampleNow ?st ''gamma''
             ([], Some (rateLimitInfoOf (exampleRate 4980)), exampleNow)
           = Return ([exampleJob ''gamma''], Some (rateLimitInfoOf (exampleRate 4980)), exampleNow)"
    by (rule ex_processOrg) simp_all
  have pre: "forEach (processOrg exampleSys ''week'' exampleNow ?st) [''alpha''] ([], None, exampleNow)
             = Return ([exampleJob ''alpha''], Some (rateLimitInfoOf (exampleRate 4980)), exampleNow)"
    by (simp add: a)
  have api: "ListRepositoryWorkflowRuns exampleSys ''alpha'' ''api'' exampleNow
             = (Inl ''404 Not Found'', exampleNow)"
    by (simp add: exampleSys_simps exampleRuns_def)
  have rpre: "forEach (processRepo exampleSys ''week'' exampleNow ?st ''alpha'') []
                ([], None, exampleNow) = Return ([], None, exampleNow)"
    by simp
  have name: "repo_Name (exampleRepo ''api'') = Some ''api''"
    by (simp add: exampleRepo_def)
  have now: "time_Now exampleSys exampleNow = (exampleNow, exampleNow)"
    by (simp add: exampleSys_simps)
  note inst = listing_failures_are_skipped
    [where S = exampleSys and period = "''week''" and now = exampleNow and st = ?st
       and pre = "[''alpha'']" and acc = "([], None, exampleNow)" and org = "''beta''"
       and post = "[''gamma'']" and w = exampleNow and ?w1.0 = exampleNow
       and jobs = "[exampleJob ''alpha'']" and rl = "Some (rateLimitInfoOf (exampleRate 4980))"
       and e = "''502 Bad Gateway''"
       and org' = "''alpha''" and rpre = "[]" and racc = "([], None, exampleNow)"
       and rjobs = "[]" and rrl = None and rw = exampleNow and repo = "exampleRepo ''api''"
       and name = "''api''" and re = "''404 Not Found''" and ?rw1.0 = exampleNow
       and rpost = "[exampleRepo ''web'']"
       and hw = exampleNow and ?ht0.0 = exampleNow and hwa = exampleNow and hnow = exampleNow
       and ?w0.0 = exampleNow and query = "''week''"
       and ?o1.0 = "''alpha''" and ?j1.0 = "[exampleJob ''alpha'']"
       and ?r1.0 = "Some (rateLimitInfoOf (exampleRate 4980))" and ?hw1.0 = exampleNow
       and ?o2.0 = "''beta''" and he = "''502 Bad Gateway''" and ?hw2.0 = exampleNow
       and ?o3.0 = "''gamma''" and ?j3.0 = "[exampleJob ''gamma'']"
       and ?r3.0 = "Some (rateLimitInfoOf (exampleRate 4980))" and ?hw3.0 = exampleNow]
  have c1: "forEach (processOrg exampleSys ''week'' exampleNow ?st)
              ([''alpha''] @ ''beta'' # [''gamma'']) ([], None, exampleNow)
            = forEach (processOrg exampleSys ''week'' exampleNow ?st) [''gamma'']
                ([exampleJob ''alpha''], Some (rateLimitInfoOf (exampleRate 4980)), exampleNow)"
    using inst pre ex_processOrg_beta by blast
  have c2: "forEach (processRepo exampleSys ''week'' exampleNow ?st ''alpha'')
              ([] @ exampleRepo ''api'' # [exampleRepo ''web'']) ([], None, exampleNow)
            = forEach (processRepo exampleSys ''week'' exampleNow ?st ''alpha'')
                [exampleRepo ''web''] ([], None, exampleNow)"
    using inst rpre name api by blast
  have c4: "set (sort_Slice exampleSys createdAfter ([exampleJob ''alpha''] @ [exampleJob ''gamma'']))
            = set [exampleJob ''alpha''] \<union> set [exampleJob ''gamma'']"
  proof -
    have "sortSliceContract (sort_Slice exampleSys)"
      by (simp add: exampleSys_simps insertionSort_contract)
    moreover have "time_Now exampleSys exampleNow = (exampleNow, exampleNow)
      \<and> time_Now exampleSys exampleNow = (exampleNow, exampleNow)
      \<and> processOrg exampleSys (periodOfQuery ''week'') exampleNow
          (startTimeOf (Local exampleSys) exampleNow (periodOfQuery ''week''))
          ''alpha'' ([], None, exampleNow)
        = Return ([exampleJob ''alpha''], Some (rateLimitInfoOf (exampleRate 4980)), exampleNow)
      \<and> ListByOrg exampleSys ''beta'' exampleNow = (Inl ''502 Bad Gateway'', exampleNow)
      \<and> processOrg exampleSys (periodOfQuery ''week'') exampleNow
          (startTimeOf (Local exampleSys) exampleNow (periodOfQuery ''week''))
          ''gamma'' ([], Some (rateLimitInfoOf (exampleRate 4980)), exampleNow)
        = Return ([exampleJob ''gamma''], Some (rateLimitInfoOf (exampleRate 4980)), exampleNow)"
      using now a g ex_processOrg_beta
      by (simp only: ex_periodOfQuery ex_startTime_week exampleSys_simps)
    ultimately show ?thesis
      using inst [THEN conjunct2, THEN conjunct2, THEN conjunct2] by blast
  qed
  show ?thesis
    using ex_processOrg_beta c1 api c2 ex_handler_second_fails c4 by blast
qed

section \<open>The statistics of the collected jobs\<close>

text \<open>
  C10. For every job list in which each status is one of success, failed, running or
  pending, the statistics computed by calculateStats satisfy
  Success + Failed + Running + Pending = Total, and Total is the number of jobs. The
  jobs that the collector builds have such a status.
\<close>

theorem calculateStats_sum_is_total:
  "((\<forall>j \<in> set jobs. Status j \<in> {''success'', ''failed'', ''running'', ''pending''}) \<longrightarrow>
      Success (calculateStats jobs) + Failed (calculateStats jobs)
      + Running (calculateStats jobs) + Pending (calculateStats jobs)
      = Total (calculateStats jobs)
      \<and> Total (calculateStats jobs) = int (length jobs))
   \<and> (makeJob S org repo run w = Return (job, w') \<longrightarrow>
      Status job \<in> {''success'', ''failed'', ''running'', ''pending''})"
proof (intro conjI impI)
  assume h: "\<forall>j \<in> set jobs. Status j \<in> {''success'', ''failed'', ''running'', ''pending''}"
  show "Success (calculateStats jobs) + Failed (calculateStats jobs)
      + Running (calculateStats jobs) + Pending (calculateStats jobs)
      = Total (calculateStats jobs)"
    using fold_countJob_sum [OF h] by (simp add: calculateStats_def fold_countJob_Total)
  show "Total (calculateStats jobs) = int (length jobs)"
    by (simp add: calculateStats_def fold_countJob_Total)
next
  assume "makeJob S org repo run w = Return (job, w')"
  then have "Status job = jobStatusOf (Map_unicode_ToLower S) (the (run_Status run)) (run_Conclusion run)"
    by (rule makeJob_Status)
  then show "Status job \<in> {''success'', ''failed'', ''running'', ''pending''}"
    using jobStatusOf_cases [of "Map_unicode_ToLower S" "the (run_Status run)" "run_Conclusion run"]
    by auto
qed

theorem calculateStats_sum_is_total_witness:
  "makeJob exampleSys ''alpha'' ''web'' (exampleRun 5) exampleNow
     = Return (exampleJob ''alpha'', exampleNow)
   \<and> Status (exampleJob ''alpha'') \<in> {''success'', ''failed'', ''running'', ''pending''}
   \<and> Success (calculateStats [exampleJob ''alpha'']) + Failed (calculateStats [exampleJob ''alpha''])
      + Running (calculateStats [exampleJob ''alpha'']) + Pending (calculateStats [exampleJob ''alpha''])
      = Total (calculateStats [exampleJob ''alpha''])
   \<and> Total (calculateStats [exampleJob ''alpha'']) = 1"
proof -
  have m: "makeJob exampleSys ''alpha'' ''web'' (exampleRun 5) exampleNow
           = Return (exampleJob ''alpha'', exampleNow)"
    by (rule ex_makeJob) simp
  note inst = calculateStats_sum_is_total [where jobs = "[exampleJob ''alpha'']" and S = exampleSys
      and org = "''alpha''" and repo = "''web''" and run = "exampleRun 5" and w = exampleNow
      and job = "exampleJob ''alpha''" and w' = exampleNow]
  from inst m have s: "Status (exampleJob ''alpha'') \<in> {''success'', ''failed'', ''running'', ''pending''}"
    by blast
  then have "\<forall>j \<in> set [exampleJob ''alpha'']. Status j \<in> {''success'', ''failed'', ''running'', ''pending''}"
    by simp
  with inst have "Success (calculateStats [exampleJob ''alpha'']) + Failed (calculateStats [exampleJob ''alpha''])
      + Running (calculateStats [exampleJob ''alpha'']) + Pending (calculateStats [exampleJob ''alpha''])
      = Total (calculateStats [exampleJob ''alpha''])
   \<and> Total (calculateStats [exampleJob ''alpha'']) = int (length [exampleJob ''alpha''])"
    by blast
  with m s show ?thesis by simp
qed

section \<open>Recording does not change what a cycle does\<close>

lemma recording_simps:
  "Local (recording S) = Local S"
  "sort_Slice (recording S) = sort_Slice S"
  "Map_unicode_ToLower (recording S) = Map_unicode_ToLower S"
  "time_Now (recording S) (w, tr) = (fst (time_Now S w), (snd (time_Now S w), tr @ [ClockRead (fst (time_Now S w))]))"
  "ListByOrg (recording S) org (w, tr)
     = (fst (ListByOrg S org w), (snd (ListByOrg S org w), tr @ [ListByOrgCall org (fst (ListByOrg S org w))]))"
  "ListRepositoryWorkflowRuns (recording S) org repo (w, tr)
     = (fst (ListRepositoryWorkflowRuns S org repo w),
        (snd (ListRepositoryWorkflowRuns S org repo w),
         tr @ [ListRunsCall org repo (fst (ListRepositoryWorkflowRuns S org repo w))]))"
  by (simp_all add: recording_def split: prod.splits)



lemma forEach_forget:
  assumes "\<And>x s. mapOutcome g (body' x s) = body x (g s)"
  shows "mapOutcome g (forEach body' xs s) = forEach body xs (g s)"
proof (induction xs arbitrary: s)
  case Nil
  then show ?case by simp
next
  case (Cons x xs)
  show ?case
  proof (cases "body' x s")
    case Panic
    then have "body x (g s) = Panic"
      using assms [of x s] by simp
    with Panic show ?thesis by simp
  next
    case (Return s')
    then have "body x (g s) = Return (g s')"
      using assms [of x s] by simp
    with Return Cons.IH [of s'] show ?thesis by simp
  qed
qed

lemma runDuration_forget:
  "(case runDuration (recording S) run (w, tr) of (d, (w', tr')) \<Rightarrow> (d, w')) = runDuration S run w"
  by (simp add: runDuration_def recording_simps split: prod.splits)

lemma runStarted_forget:
  "(case runStarted (recording S) run (w, tr) of (d, (w', tr')) \<Rightarrow> (d, w')) = runStarted S run w"
  by (simp add: runStarted_def formatTimeAgo_def recording_simps split: prod.splits)

lemma makeJob_forget:
  "mapOutcome (\<lambda>(j, (w', tr')). (j, w')) (makeJob (recording S) org repo run (w, tr))
   = makeJob S org repo run w"
proof -
  obtain d w1 tr1 where d: "runDuration (recording S) run (w, tr) = (d, (w1, tr1))"
    by (metis prod.exhaust)
  obtain st w2 tr2 where st: "runStarted (recording S) run (w1, tr1) = (st, (w2, tr2))"
    by (metis prod.exhaust)
  have d': "runDuration S run w = (d, w1)"
    using runDuration_forget [of S run w tr] d by simp
  have st': "runStarted S run w1 = (st, w2)"
    using runStarted_forget [of S run w1 tr1] st by simp
  show ?thesis
    by (simp add: makeJob_def d st d' st' recording_simps Let_def split: option.splits prod.splits)
qed

lemma processRun_forget:
  "mapOutcome (\<lambda>(jobs, (w', tr')). (jobs, w')) (processRun (recording S) p now st org repo run (jobs, (w, tr)))
   = processRun S p now st org repo run (jobs, w)"
  using makeJob_forget [of S org repo run w tr]
  by (cases "makeJob (recording S) org repo run (w, tr)")
     (auto simp: processRun_def recording_simps split: option.splits prod.splits outcome.splits)


lemma runs_loop_forget:
  "mapOutcome (\<lambda>(jobs, (w', tr')). (jobs, w'))
     (forEach (processRun (recording S) p now st org repo) runs (jobs, (w, tr)))
   = forEach (processRun S p now st org repo) runs (jobs, w)"
proof -
  have "mapOutcome (\<lambda>(jobs, (w', tr')). (jobs, w'))
          (forEach (processRun (recording S) p now st org repo) runs (jobs, (w, tr)))
        = forEach (processRun S p now st org repo) runs
            ((\<lambda>(jobs, (w', tr')). (jobs, w')) (jobs, (w, tr)))"
    by (rule forEach_forget) (auto simp: processRun_forget)
  then show ?thesis by simp
qed

lemma processRepo_forget:
  "mapOutcome (\<lambda>(jobs, rl, (w', tr')). (jobs, rl, w'))
     (processRepo (recording S) p now st org repo (jobs, rl, (w, tr)))
   = processRepo S p now st org repo (jobs, rl, w)"
proof (cases "repo_Name repo")
  case None
  then show ?thesis by (simp add: processRepo_def)
next
  case (Some name)
  obtain r w1 where call: "ListRepositoryWorkflowRuns S org name w = (r, w1)"
    by (metis prod.exhaust)
  show ?thesis
  proof (cases r)
    case (Inl e)
    with Some call show ?thesis by (simp add: processRepo_def recording_simps)
  next
    case (Inr listing)
    obtain runs resp where listing: "listing = (runs, resp)" by (cases listing)
    let ?tr1 = "tr @ [ListRunsCall org name (Inr (runs, resp))]"
    have loop: "mapOutcome (\<lambda>(jobs, (w', tr')). (jobs, w'))
        (forEach (processRun (recording S) p now st org name) runs (jobs, (w1, ?tr1)))
      = forEach (processRun S p now st org name) runs (jobs, w1)"
      by (rule runs_loop_forget)
    show ?thesis
      using loop
      by (cases "forEach (processRun (recording S) p now st org name) runs (jobs, (w1, ?tr1))")
         (auto simp: processRepo_def recording_simps Some call Inr listing Let_def
            split: outcome.splits)
  qed
qed

lemma repos_loop_forget:
  "mapOutcome (\<lambda>(jobs, rl, (w', tr')). (jobs, rl, w'))
     (forEach (processRepo (recording S) p now st org) repos (jobs, rl, (w, tr)))
   = forEach (processRepo S p now st org) repos (jobs, rl, w)"
proof -
  have "mapOutcome (\<lambda>(jobs, rl, (w', tr')). (jobs, rl, w'))
          (forEach (processRepo (recording S) p now st org) repos (jobs, rl, (w, tr)))
        = forEach (processRepo S p now st org) repos
            ((\<lambda>(jobs, rl, (w', tr')). (jobs, rl, w')) (jobs, rl, (w, tr)))"
    by (rule forEach_forget) (auto simp: processRepo_forget)
  then show ?thesis by simp
qed

lemma processOrg_forget:
  "mapOutcome (\<lambda>(jobs, rl, (w', tr')). (jobs, rl, w'))
     (processOrg (recording S) p now st org (jobs, rl, (w, tr)))
   = processOrg S p now st org (jobs, rl, w)"
proof -
  obtain r w1 where call: "ListByOrg S org w = (r, w1)"
    by (metis prod.exhaust)
  show ?thesis
  proof (cases r)
    case (Inl e)
    with call show ?thesis by (simp add: processOrg_def recording_simps)
  next
    case (Inr listing)
    obtain repos resp where listing: "listing = (repos, resp)" by (cases listing)
    show ?thesis
      by (simp add: processOrg_def recording_simps call Inr listing Let_def repos_loop_forget)
  qed
qed

lemma orgs_loop_forget:
  "mapOutcome (\<lambda>(jobs, rl, (w', tr')). (jobs, rl, w'))
     (forEach (processOrg (recording S) p now st) orgs (jobs, rl, (w, tr)))
   = forEach (processOrg S p now st) orgs (jobs, rl, w)"
proof -
  have "mapOutcome (\<lambda>(jobs, rl, (w', tr')). (jobs, rl, w'))
          (forEach (processOrg (recording S) p now st) orgs (jobs, rl, (w, tr)))
        = forEach (processOrg S p now st) orgs
            ((\<lambda>(jobs, rl, (w', tr')). (jobs, rl, w')) (jobs, rl, (w, tr)))"
    by (rule forEach_forget) (auto simp: processOrg_forget)
  then show ?thesis by simp
qed

lemma fetchWorkflowRuns_forget:
  "mapOutcome (\<lambda>(r, (w', tr')). (r, w')) (fetchWorkflowRuns (recording S) orgs p (w, tr))
   = fetchWorkflowRuns S orgs p w"
proof -
  obtain now w0 where now: "time_Now S w = (now, w0)"
    by (metis prod.exhaust)
  let ?tr0 = "tr @ [ClockRead now]"
  let ?st = "startTimeOf (Local S) now p"
  have loop: "mapOutcome (\<lambda>(jobs, rl, (w', tr')). (jobs, rl, w'))
      (forEach (processOrg (recording S) p now ?st) orgs ([], None, (w0, ?tr0)))
    = forEach (processOrg S p now ?st) orgs ([], None, w0)"
    by (rule orgs_loop_forget)
  show ?thesis
    using loop
    by (cases "forEach (processOrg (recording S) p now ?st) orgs ([], None, (w0, ?tr0))")
       (auto simp: fetchWorkflowRuns_def recording_simps now Let_def
          split: outcome.splits option.splits prod.splits)
qed

lemma dashboardHandler_forget:
  "mapOutcome (\<lambda>(r, (w', tr')). (r, w')) (dashboardHandler (recording S) orgs q (w, tr))
   = dashboardHandler S orgs q w"
proof -
  obtain t0 wa where start: "time_Now S w = (t0, wa)"
    by (metis prod.exhaust)
  show ?thesis
    using fetchWorkflowRuns_forget [of S orgs "periodOfQuery q" wa "tr @ [ClockRead t0]"]
    by (cases "fetchWorkflowRuns (recording S) orgs (periodOfQuery q) (wa, tr @ [ClockRead t0])")
       (auto simp: dashboardHandler_def recording_simps start Let_def
          split: outcome.splits option.splits prod.splits)
qed

section \<open>What a cycle appends to the trace\<close>

lemma forEach_invariant:
  assumes "forEach body xs s = Return s'" and "I s"
    and "\<And>x t t'. x \<in> set xs \<Longrightarrow> I t \<Longrightarrow> body x t = Return t' \<Longrightarrow> I t'"
  shows "I s'"
  using assms
proof (induction xs arbitrary: s)
  case Nil
  then show ?case by simp
next
  case (Cons x xs)
  from Cons.prems(1) obtain t where t: "body x s = Return t" and rest: "forEach body xs t = Return s'"
    by (auto split: outcome.splits)
  have "I t" using Cons.prems(3) [of x s t] Cons.prems(2) t by simp
  moreover have "I u'" if "y \<in> set xs" "I u" "body y u = Return u'" for y u u'
    using Cons.prems(3) [of y u u'] that by simp
  ultimately show ?case
    using rest Cons.IH [of t] by blast
qed

lemma reportedRates_append: "reportedRates (tr @ tr') = reportedRates tr @ reportedRates tr'"
  by (simp add: reportedRates_def)

lemma listedRuns_append: "listedRuns (tr @ tr') = listedRuns tr @ listedRuns tr'"
  by (simp add: listedRuns_def)

lemma clockReads_append: "clockReads (tr @ tr') = clockReads tr @ clockReads tr'"
  by (simp add: clockReads_def)

lemma trace_Nil: "reportedRates [] = []" "listedRuns [] = []" "clockReads [] = []"
  by (simp_all add: reportedRates_def listedRuns_def clockReads_def)

lemma trace_Cons:
  "reportedRates (e # tr) = reportedRate e @ reportedRates tr"
  "listedRuns (e # tr) = listedRun e @ listedRuns tr"
  "clockReads (e # tr) = clockRead e @ clockReads tr"
  by (simp_all add: reportedRates_def listedRuns_def clockReads_def)

lemma reportedRates_clock: "reportedRates (map ClockRead cs) = []"
  by (induction cs) (simp_all add: reportedRates_def)

lemma listedRuns_clock: "listedRuns (map ClockRead cs) = []"
  by (induction cs) (simp_all add: listedRuns_def)

lemma runDuration_trace:
  "runDuration (recording S) run (w, tr) = (d, (w', tr')) \<Longrightarrow> \<exists>cs. tr' = tr @ map ClockRead cs"
  unfolding runDuration_def
  by (auto simp: recording_simps split: if_splits prod.splits intro: exI [of _ "[]"] exI [of _ "[c]" for c])

lemma runStarted_trace:
  "runStarted (recording S) run (w, tr) = (d, (w', tr')) \<Longrightarrow> \<exists>cs. tr' = tr @ map ClockRead cs"
  unfolding runStarted_def formatTimeAgo_def
  by (auto simp: recording_simps split: if_splits prod.splits intro: exI [of _ "[]"] exI [of _ "[c]" for c])

lemma makeJob_trace:
  assumes "makeJob (recording S) org repo run (w, tr) = Return (j, (w', tr'))"
  shows "\<exists>cs. tr' = tr @ map ClockRead cs"
proof -
  obtain d w1 tr1 where d: "runDuration (recording S) run (w, tr) = (d, (w1, tr1))"
    by (metis prod.exhaust)
  obtain st w2 tr2 where st: "runStarted (recording S) run (w1, tr1) = (st, (w2, tr2))"
    by (metis prod.exhaust)
  from runDuration_trace [OF d] obtain cs1 where cs1: "tr1 = tr @ map ClockRead cs1" ..
  from runStarted_trace [OF st] obtain cs2 where cs2: "tr2 = tr1 @ map ClockRead cs2" ..
  have "tr' = tr2 \<or> (\<exists>c. tr' = tr2 @ map ClockRead [c])"
    using assms
    by (auto simp: makeJob_def d st recording_simps Let_def split: option.splits prod.splits)
  then show ?thesis
  proof
    assume "tr' = tr2"
    with cs1 cs2 have "tr' = tr @ map ClockRead (cs1 @ cs2)" by simp
    then show ?thesis ..
  next
    assume "\<exists>c. tr' = tr2 @ map ClockRead [c]"
    then obtain c where "tr' = tr2 @ map ClockRead [c]" ..
    with cs1 cs2 have "tr' = tr @ map ClockRead (cs1 @ cs2 @ [c])" by simp
    then show ?thesis ..
  qed
qed

lemma processRun_trace:
  assumes "processRun (recording S) p now st org repo run (jobs, (w, tr)) = Return (jobs', (w', tr'))"
  shows "\<exists>cs. tr' = tr @ map ClockRead cs"
proof (cases "jobs' = jobs \<and> tr' = tr")
  case True
  then have "tr' = tr @ map ClockRead []" by simp
  then show ?thesis ..
next
  case False
  with assms obtain j where "makeJob (recording S) org repo run (w, tr) = Return (j, (w', tr'))"
    by (auto simp: processRun_def split: option.splits if_splits outcome.splits)
  then show ?thesis by (rule makeJob_trace)
qed

lemma runs_loop_trace:
  assumes "forEach (processRun (recording S) p now st org repo) runs (jobs, (w, tr)) = Return (jobs', (w', tr'))"
  shows "\<exists>cs. tr' = tr @ map ClockRead cs"
proof -
  have "(\<lambda>(js, (v, t)). \<exists>cs. t = tr @ map ClockRead cs) (jobs', (w', tr'))"
  proof (rule forEach_invariant [OF assms])
    show "(\<lambda>(js, (v, t)). \<exists>cs. t = tr @ map ClockRead cs) (jobs, (w, tr))"
      by (simp add: exI [of _ "[]"])
  next
    fix x and t t' :: "Job list \<times> 'a \<times> event list"
    assume inv: "(\<lambda>(js, (v, t)). \<exists>cs. t = tr @ map ClockRead cs) t"
      and step: "processRun (recording S) p now st org repo x t = Return t'"
    obtain js v u where t: "t = (js, (v, u))" by (metis prod.exhaust)
    obtain js' v' u' where t': "t' = (js', (v', u'))" by (metis prod.exhaust)
    from inv t obtain cs where cs: "u = tr @ map ClockRead cs" by auto
    from processRun_trace [OF step [unfolded t t']] obtain cs' where "u' = u @ map ClockRead cs'" ..
    with cs have "u' = tr @ map ClockRead (cs @ cs')" by simp
    then show "(\<lambda>(js, (v, t)). \<exists>cs. t = tr @ map ClockRead cs) t'"
      unfolding t' by blast
  qed
  then show ?thesis by simp
qed

section \<open>The rate limit follows the trace\<close>

lemma lastRate_snoc: "lastRate (rates @ [rate]) = Some (rateLimitInfoOf rate)"
  by (simp add: lastRate_def)

lemma processRepo_rate:
  assumes step: "processRepo (recording S) p now st org repo (jobs, rl, (w, tr)) = Return (jobs', rl', (w', tr'))"
    and inv: "rl = lastRate (reportedRates tr)"
  shows "rl' = lastRate (reportedRates tr')"
proof -
  from step obtain name where name: "repo_Name repo = Some name"
    by (auto simp: processRepo_def split: option.splits)
  obtain r w1 where call: "ListRepositoryWorkflowRuns S org name w = (r, w1)"
    by (metis prod.exhaust)
  let ?tr1 = "tr @ [ListRunsCall org name r]"
  show ?thesis
  proof (cases r)
    case (Inl e)
    with step name call have "rl' = rl" "tr' = ?tr1"
      by (auto simp: processRepo_def recording_simps)
    with inv Inl show ?thesis
      by (simp add: reportedRates_append trace_Nil trace_Cons)
  next
    case (Inr listing)
    obtain runs resp where listing: "listing = (runs, resp)" by (cases listing)
    let ?rl1 = "case resp of Some rate \<Rightarrow> Some (rateLimitInfoOf rate) | None \<Rightarrow> rl"
    from step name call Inr listing
    have loop: "forEach (processRun (recording S) p now st org name) runs (jobs, (w1, ?tr1))
                = Return (jobs', (w', tr'))" and rl': "rl' = ?rl1"
      by (auto simp: processRepo_def recording_simps Let_def split: outcome.splits)
    from runs_loop_trace [OF loop] obtain cs where "tr' = ?tr1 @ map ClockRead cs" ..
    then have "reportedRates tr' = reportedRates (?tr1 @ map ClockRead cs)"
      by simp
    also have "\<dots> = reportedRates ?tr1"
      by (simp only: reportedRates_append [of ?tr1] reportedRates_clock append_Nil2)
    also have "\<dots> = reportedRates tr @ (case resp of Some rate \<Rightarrow> [rate] | None \<Rightarrow> [])"
      using Inr listing by (cases resp) (simp_all add: reportedRates_append trace_Nil trace_Cons)
    finally show ?thesis
      using rl' inv by (cases resp) (simp_all add: lastRate_snoc)
  qed
qed

lemma repos_loop_rate:
  assumes "forEach (processRepo (recording S) p now st org) repos (jobs, rl, (w, tr)) = Return (jobs', rl', (w', tr'))"
    and "rl = lastRate (reportedRates tr)"
  shows "rl' = lastRate (reportedRates tr')"
proof -
  have "(\<lambda>(js, r, (v, t)). r = lastRate (reportedRates t)) (jobs', rl', (w', tr'))"
  proof (rule forEach_invariant [OF assms(1)])
    show "(\<lambda>(js, r, (v, t)). r = lastRate (reportedRates t)) (jobs, rl, (w, tr))"
      using assms(2) by simp
  next
    fix x and t t' :: "Job list \<times> RateLimitInfo option \<times> 'a \<times> event list"
    assume inv: "(\<lambda>(js, r, (v, t)). r = lastRate (reportedRates t)) t"
      and step: "processRepo (recording S) p now st org x t = Return t'"
    obtain js r v u where t: "t = (js, r, (v, u))" by (metis prod.exhaust)
    obtain js' r' v' u' where t': "t' = (js', r', (v', u'))" by (metis prod.exhaust)
    from processRepo_rate [OF step [unfolded t t']] inv t
    show "(\<lambda>(js, r, (v, t)). r = lastRate (reportedRates t)) t'"
      unfolding t' by simp
  qed
  then show ?thesis by simp
qed

lemma processOrg_rate:
  assumes step: "processOrg (recording S) p now st org (jobs, rl, (w, tr)) = Return (jobs', rl', (w', tr'))"
    and inv: "rl = lastRate (reportedRates tr)"
  shows "rl' = lastRate (reportedRates tr')"
proof -
  obtain r w1 where call: "ListByOrg S org w = (r, w1)"
    by (metis prod.exhaust)
  let ?tr1 = "tr @ [ListByOrgCall org r]"
  show ?thesis
  proof (cases r)
    case (Inl e)
    with step call have "rl' = rl" "tr' = ?tr1"
      by (auto simp: processOrg_def recording_simps)
    with inv Inl show ?thesis
      by (simp add: reportedRates_append trace_Nil trace_Cons)
  next
    case (Inr listing)
    obtain repos resp where listing: "listing = (repos, resp)" by (cases listing)
    let ?rl1 = "case resp of Some rate \<Rightarrow> Some (rateLimitInfoOf rate) | None \<Rightarrow> rl"
    from step call Inr listing
    have loop: "forEach (processRepo (recording S) p now st org)
                  (filter (repoInPeriod (Local S) p now st) repos) (jobs, ?rl1, (w1, ?tr1))
                = Return (jobs', rl', (w', tr'))"
      by (auto simp: processOrg_def recording_simps Let_def)
    have "reportedRates ?tr1 = reportedRates tr @ (case resp of Some rate \<Rightarrow> [rate] | None \<Rightarrow> [])"
      using Inr listing by (cases resp) (simp_all add: reportedRates_append trace_Nil trace_Cons)
    then have "?rl1 = lastRate (reportedRates ?tr1)"
      using inv by (cases resp) (simp_all add: lastRate_snoc)
    with loop show ?thesis by (rule repos_loop_rate)
  qed
qed

lemma orgs_loop_rate:
  assumes "forEach (processOrg (recording S) p now st) orgs (jobs, rl, (w, tr)) = Return (jobs', rl', (w', tr'))"
    and "rl = lastRate (reportedRates tr)"
  shows "rl' = lastRate (reportedRates tr')"
proof -
  have "(\<lambda>(js, r, (v, t)). r = lastRate (reportedRates t)) (jobs', rl', (w', tr'))"
  proof (rule forEach_invariant [OF assms(1)])
    show "(\<lambda>(js, r, (v, t)). r = lastRate (reportedRates t)) (jobs, rl, (w, tr))"
      using assms(2) by simp
  next
    fix x and t t' :: "Job list \<times> RateLimitInfo option \<times> 'a \<times> event list"
    assume inv: "(\<lambda>(js, r, (v, t)). r = lastRate (reportedRates t)) t"
      and step: "processOrg (recording S) p now st x t = Return t'"
    obtain js r v u where t: "t = (js, r, (v, u))" by (metis prod.exhaust)
    obtain js' r' v' u' where t': "t' = (js', r', (v', u'))" by (metis prod.exhaust)
    from processOrg_rate [OF step [unfolded t t']] inv t
    show "(\<lambda>(js, r, (v, t)). r = lastRate (reportedRates t)) t'"
      unfolding t' by simp
  qed
  then show ?thesis by simp
qed

lemma fetchWorkflowRuns_rate:
  assumes "fetchWorkflowRuns (recording S) orgs p (w, tr0) = Return ((jobs, rl, err), (w', tr))"
    and tr0: "reportedRates tr0 = []"
  shows "rl = Some (if reportedRates tr = []
                    then \<lparr>Remaining = 5000, Limit = 5000, ResetAt = last (clockReads tr) + 3600 * 1000000000\<rparr>
                    else rateLimitInfoOf (last (reportedRates tr)))"
proof -
  obtain now w0 where now: "time_Now S w = (now, w0)"
    by (metis prod.exhaust)
  let ?st = "startTimeOf (Local S) now p"
  from assms now obtain allJobs rl1 w1 tr1 where
    loop: "forEach (processOrg (recording S) p now ?st) orgs ([], None, (w0, tr0 @ [ClockRead now]))
           = Return (allJobs, rl1, (w1, tr1))"
    by (auto simp: fetchWorkflowRuns_def recording_simps Let_def split: outcome.splits)
  have "None = lastRate (reportedRates (tr0 @ [ClockRead now]))"
    using tr0 by (simp add: lastRate_def reportedRates_append trace_Cons trace_Nil)
  with loop have rl1: "rl1 = lastRate (reportedRates tr1)"
    by (rule orgs_loop_rate)
  show ?thesis
  proof (cases rl1)
    case None
    obtain t w2 where t: "time_Now S w1 = (t, w2)" by (metis prod.exhaust)
    from assms(1) now loop None t have "rl = Some (defaultRateLimit t)" "tr = tr1 @ [ClockRead t]"
      by (auto simp: fetchWorkflowRuns_def recording_simps Let_def)
    moreover from None rl1 have "reportedRates tr1 = []"
      by (simp add: lastRate_def split: if_splits)
    ultimately show ?thesis
      by (simp add: reportedRates_append clockReads_append defaultRateLimit_def Hour_def Minute_def
          Second_def trace_Nil trace_Cons)
  next
    case (Some r)
    from assms(1) now loop Some have "rl = Some r" "tr = tr1"
      by (auto simp: fetchWorkflowRuns_def recording_simps Let_def)
    with Some rl1 show ?thesis
      by (simp add: lastRate_def split: if_splits)
  qed
qed

lemma dashboardHandler_rate:
  assumes "dashboardHandler (recording S) orgs q (w, []) = Return (HttpOK resp, (w', tr))"
  shows "RateLimit resp
         = (if reportedRates tr = []
            then \<lparr>Remaining = 5000, Limit = 5000,
                  ResetAt = last (butlast (clockReads tr)) + 3600 * 1000000000\<rparr>
            else rateLimitInfoOf (last (reportedRates tr)))"
proof -
  obtain t0 wa where start: "time_Now S w = (t0, wa)"
    by (metis prod.exhaust)
  from assms start obtain jobs rl err w1 tr1 where
    fetch: "fetchWorkflowRuns (recording S) orgs (periodOfQuery q) (wa, [ClockRead t0])
            = Return ((jobs, rl, err), (w1, tr1))"
    by (auto simp: dashboardHandler_def recording_simps Let_def split: outcome.splits)
  obtain t1 wb where finish: "time_Now S w1 = (t1, wb)"
    by (metis prod.exhaust)
  have "reportedRates [ClockRead t0] = []"
    by (simp add: trace_Cons trace_Nil)
  with fetch have "rl = Some (if reportedRates tr1 = []
            then \<lparr>Remaining = 5000, Limit = 5000, ResetAt = last (clockReads tr1) + 3600 * 1000000000\<rparr>
            else rateLimitInfoOf (last (reportedRates tr1)))"
    by (rule fetchWorkflowRuns_rate)
  then obtain r where
    r: "rl = Some r" "r = (if reportedRates tr1 = []
            then \<lparr>Remaining = 5000, Limit = 5000, ResetAt = last (clockReads tr1) + 3600 * 1000000000\<rparr>
            else rateLimitInfoOf (last (reportedRates tr1)))"
    by blast
  from fetchWorkflowRuns_no_error [OF fetch] have "err = None" by simp
  with assms start fetch finish r(1) have "RateLimit resp = r" "tr = tr1 @ [ClockRead t1]"
    by (auto simp: dashboardHandler_def recording_simps Let_def)
  with r(2) show ?thesis
    by (simp add: reportedRates_append clockReads_append trace_Cons trace_Nil)
qed

lemma quotaSys_simps:
  "Local quotaSys = exampleLoc"
  "time_Now quotaSys w = (w, w)"
  "ListByOrg quotaSys org w = (quotaRepos org, w)"
  "ListRepositoryWorkflowRuns quotaSys org repo w = (quotaRuns org repo, w)"
  "sort_Slice quotaSys = insertionSort"
  "Map_unicode_ToLower quotaSys = (\<lambda>s. s)"
  by (simp_all add: quotaSys_def scripted_def)

lemma ex_quota_cycle:
  "dashboardHandler (recording quotaSys) [''acme''] ''week'' (exampleNow, [])
   = Return (HttpOK \<lparr>Stats = \<lparr>Success = 0, Failed = 0, Running = 0, Pending = 0, Total = 0\<rparr>,
                     Jobs = [], RateLimit = rateLimitInfoOf (exampleRate 95)\<rparr>,
             (exampleNow,
              [ClockRead exampleNow, ClockRead exampleNow,
               ListByOrgCall ''acme'' (quotaRepos ''acme''),
               ListRunsCall ''acme'' ''api'' (quotaRuns ''acme'' ''api''),
               ListRunsCall ''acme'' ''web'' (quotaRuns ''acme'' ''web''),
               ClockRead exampleNow]))"
proof -
  have api: "processRepo (recording quotaSys) ''week'' exampleNow (exampleNow - 168 * Hour) ''acme''
               (exampleRepo ''api'') ([], Some (rateLimitInfoOf (exampleRate 100)),
                 (exampleNow, [ClockRead exampleNow, ClockRead exampleNow, ListByOrgCall ''acme'' (quotaRepos ''acme'')]))
             = Return ([], Some (rateLimitInfoOf (exampleRate 80)),
                 (exampleNow, [ClockRead exampleNow, ClockRead exampleNow, ListByOrgCall ''acme'' (quotaRepos ''acme''),
                    ListRunsCall ''acme'' ''api'' (quotaRuns ''acme'' ''api'')]))"
    by (simp add: processRepo_def exampleRepo_def recording_simps quotaSys_simps quotaRuns_def)
  have web: "processRepo (recording quotaSys) ''week'' exampleNow (exampleNow - 168 * Hour) ''acme''
               (exampleRepo ''web'') ([], Some (rateLimitInfoOf (exampleRate 80)),
                 (exampleNow, [ClockRead exampleNow, ClockRead exampleNow, ListByOrgCall ''acme'' (quotaRepos ''acme''),
                    ListRunsCall ''acme'' ''api'' (quotaRuns ''acme'' ''api'')]))
             = Return ([], Some (rateLimitInfoOf (exampleRate 95)),
                 (exampleNow, [ClockRead exampleNow, ClockRead exampleNow, ListByOrgCall ''acme'' (quotaRepos ''acme''),
                    ListRunsCall ''acme'' ''api'' (quotaRuns ''acme'' ''api''),
                    ListRunsCall ''acme'' ''web'' (quotaRuns ''acme'' ''web'')]))"
    by (simp add: processRepo_def exampleRepo_def recording_simps quotaSys_simps quotaRuns_def)
  have org: "processOrg (recording quotaSys) ''week'' exampleNow (exampleNow - 168 * Hour) ''acme''
               ([], None, (exampleNow, [ClockRead exampleNow, ClockRead exampleNow]))
             = Return ([], Some (rateLimitInfoOf (exampleRate 95)),
                 (exampleNow, [ClockRead exampleNow, ClockRead exampleNow, ListByOrgCall ''acme'' (quotaRepos ''acme''),
                    ListRunsCall ''acme'' ''api'' (quotaRuns ''acme'' ''api''),
                    ListRunsCall ''acme'' ''web'' (quotaRuns ''acme'' ''web'')]))"
    using api web
    by (simp add: processOrg_def recording_simps quotaSys_simps ex_repoInPeriod quotaRepos_def)
  show ?thesis
    by (simp add: dashboardHandler_def fetchWorkflowRuns_def ex_periodOfQuery recording_simps
        quotaSys_simps ex_startTime_week org insertionSort_def calculateStats_def)
qed

lemma ex_quota_trace:
  "reportedRates [ClockRead exampleNow, ClockRead exampleNow,
               ListByOrgCall ''acme'' (quotaRepos ''acme''),
               ListRunsCall ''acme'' ''api'' (quotaRuns ''acme'' ''api''),
               ListRunsCall ''acme'' ''web'' (quotaRuns ''acme'' ''web''),
               ClockRead exampleNow]
   = [exampleRate 100, exampleRate 80, exampleRate 95]"
  by (simp add: trace_Cons trace_Nil quotaRepos_def quotaRuns_def)

text \<open>
  C5. The rate limit of the response is the snapshot that the last successful API call
  reporting one has reported, in the order the calls are made (the trace of the cycle);
  when no call reported a snapshot it is 5000 remaining of 5000, with the reset one hour
  after the instant read from the clock when the loops are over, which is the last
  reading of the cycle but one (the last one times the cycle for the log). Recording the
  trace does not change the answer of the handler.
\<close>

theorem rate_limit_is_last_reported:
  "(dashboardHandler (recording S) orgNames query (w, []) = Return (HttpOK resp, (w', tr)) \<longrightarrow>
      RateLimit resp
      = (if reportedRates tr = []
         then \<lparr>Remaining = 5000, Limit = 5000, ResetAt = last (butlast (clockReads tr)) + 3600 * 1000000000\<rparr>
         else \<lparr>Remaining = rate_Remaining (last (reportedRates tr)),
               Limit = rate_Limit (last (reportedRates tr)),
               ResetAt = rate_Reset (last (reportedRates tr))\<rparr>))
   \<and> mapOutcome (\<lambda>(r, (v, t)). (r, v)) (dashboardHandler (recording S) orgNames query (w, []))
     = dashboardHandler S orgNames query w"
  using dashboardHandler_rate [of S orgNames query w resp w' tr]
    dashboardHandler_forget [of S orgNames query w "[]"]
  by (simp add: rateLimitInfoOf_def)

theorem rate_limit_is_last_reported_witness:
  "dashboardHandler (recording quotaSys) [''acme''] ''week'' (exampleNow, [])
   = Return (HttpOK \<lparr>Stats = \<lparr>Success = 0, Failed = 0, Running = 0, Pending = 0, Total = 0\<rparr>,
                     Jobs = [], RateLimit = rateLimitInfoOf (exampleRate 95)\<rparr>,
             (exampleNow,
              [ClockRead exampleNow, ClockRead exampleNow,
               ListByOrgCall ''acme'' (quotaRepos ''acme''),
               ListRunsCall ''acme'' ''api'' (quotaRuns ''acme'' ''api''),
               ListRunsCall ''acme'' ''web'' (quotaRuns ''acme'' ''web''),
               ClockRead exampleNow]))
   \<and> map rate_Remaining (reportedRates [ClockRead exampleNow, ClockRead exampleNow,
               ListByOrgCall ''acme'' (quotaRepos ''acme''),
               ListRunsCall ''acme'' ''api'' (quotaRuns ''acme'' ''api''),
               ListRunsCall ''acme'' ''web'' (quotaRuns ''acme'' ''web''),
               ClockRead exampleNow]) = [100, 80, 95]
   \<and> Remaining (rateLimitInfoOf (exampleRate 95)) = 95"
  using rate_limit_is_last_reported [of quotaSys "[''acme'']" "''week''" exampleNow
      "\<lparr>Stats = \<lparr>Success = 0, Failed = 0, Running = 0, Pending = 0, Total = 0\<rparr>,
        Jobs = [], RateLimit = rateLimitInfoOf (exampleRate 95)\<rparr>" exampleNow
      "[ClockRead exampleNow, ClockRead exampleNow,
               ListByOrgCall ''acme'' (quotaRepos ''acme''),
               ListRunsCall ''acme'' ''api'' (quotaRuns ''acme'' ''api''),
               ListRunsCall ''acme'' ''web'' (quotaRuns ''acme'' ''web''),
               ClockRead exampleNow]"]
    ex_quota_cycle ex_quota_trace
  by (simp add: rateLimitInfoOf_def exampleRate_def)

section \<open>The aggregator: sorting and counting\<close>










subsection \<open>sort.Slice leaves a sorted slice as it is\<close>










subsection \<open>sort.Slice on at most twelve elements is the stable sort\<close>






















section \<open>The calendar\<close>

lemma daysBeforeYear_1970: "daysBeforeYear 1970 = 0"
  by (simp add: daysBeforeYear_def)

lemma daysBeforeYear_mono: "y \<le> z \<Longrightarrow> daysBeforeYear y \<le> daysBeforeYear z"
proof (induction z rule: int_ge_induct)
  case base
  then show ?case by simp
next
  case (step i)
  then show ?case using daysBeforeYear_less [of i] by simp
qed

lemma daysBeforeYear_upper: "0 \<le> k \<Longrightarrow> daysBeforeYear (1970 + k) \<le> 366 * k"
proof (induction k rule: int_ge_induct)
  case base
  then show ?case by (simp add: daysBeforeYear_1970)
next
  case (step i)
  have "daysBeforeYear (1970 + i + 1) \<le> daysBeforeYear (1970 + i) + 366"
    by (simp only: daysBeforeYear_Suc split: if_splits) simp
  moreover have "1970 + (i + 1) = 1970 + i + 1" by simp
  ultimately show ?case using step by (simp only:) simp
qed

lemma daysBeforeYear_lower: "k \<le> 0 \<Longrightarrow> daysBeforeYear (1970 + k) \<le> 365 * k"
proof (induction k rule: int_le_induct)
  case base
  then show ?case by (simp add: daysBeforeYear_1970)
next
  case (step i)
  have "daysBeforeYear (1970 + (i - 1) + 1) \<ge> daysBeforeYear (1970 + (i - 1)) + 365"
    by (simp only: daysBeforeYear_Suc split: if_splits) simp
  moreover have "1970 + (i - 1) + 1 = 1970 + i" by simp
  ultimately have "daysBeforeYear (1970 + i) \<ge> daysBeforeYear (1970 + (i - 1)) + 365"
    by (simp only:)
  then show ?case using step by simp
qed

lemma yearFrom_sound:
  "daysBeforeYear y \<le> n \<Longrightarrow>
   daysBeforeYear (yearFrom n y) \<le> n \<and> n < daysBeforeYear (yearFrom n y + 1)"
proof (induction n y rule: yearFrom.induct)
  case (1 n y)
  show ?case
  proof (cases "daysBeforeYear (y + 1) \<le> n")
    case True
    with "1.IH" show ?thesis by (simp add: yearFrom.simps [of n y])
  next
    case False
    with "1.prems" show ?thesis by (simp add: yearFrom.simps [of n y])
  qed
qed

lemma yearOfDay_sound:
  "daysBeforeYear (yearOfDay n) \<le> n \<and> n < daysBeforeYear (yearOfDay n + 1)"
proof (cases "0 \<le> n")
  case True
  have "366 * (n div 366) \<le> n"
    by (metis mult.commute div_mult_mod_eq pos_mod_sign zero_less_numeral add_increasing2 order_refl)
  moreover have "0 \<le> n div 366" using True by (simp add: pos_imp_zdiv_nonneg_iff)
  ultimately have "daysBeforeYear (1970 + n div 366) \<le> n"
    using daysBeforeYear_upper [of "n div 366"] by linarith
  then show ?thesis
    using True yearFrom_sound [of "1970 + n div 366" n] by (simp add: yearOfDay_def)
next
  case False
  have "365 * (n div 365) \<le> n"
    by (metis mult.commute div_mult_mod_eq pos_mod_sign zero_less_numeral add_increasing2 order_refl)
  moreover have "n div 365 \<le> 0" using False div_neg_pos_less0 [of n 365] by simp
  ultimately have "daysBeforeYear (1970 + n div 365) \<le> n"
    using daysBeforeYear_lower [of "n div 365"] by linarith
  then show ?thesis
    using False yearFrom_sound [of "1970 + n div 365" n] by (simp add: yearOfDay_def)
qed

lemma yearOfDay_unique:
  assumes "daysBeforeYear y \<le> n" "n < daysBeforeYear (y + 1)"
  shows "yearOfDay n = y"
proof -
  let ?z = "yearOfDay n"
  have z: "daysBeforeYear ?z \<le> n" "n < daysBeforeYear (?z + 1)"
    using yearOfDay_sound [of n] by simp_all
  have "\<not> ?z < y"
  proof
    assume "?z < y"
    then have "daysBeforeYear (?z + 1) \<le> daysBeforeYear y"
      by (intro daysBeforeYear_mono) simp
    with z(2) assms(1) show False by simp
  qed
  moreover have "\<not> y < ?z"
  proof
    assume "y < ?z"
    then have "daysBeforeYear (y + 1) \<le> daysBeforeYear ?z"
      by (intro daysBeforeYear_mono) simp
    with z(1) assms(2) show False by simp
  qed
  ultimately show ?thesis by simp
qed

lemma daysBeforeMonth_simps:
  "daysBeforeMonth y 1 = 0"
  "daysBeforeMonth y 2 = 31"
  "daysBeforeMonth y 3 = (if isLeap y then 60 else 59)"
  "daysBeforeMonth y 4 = (if isLeap y then 91 else 90)"
  "daysBeforeMonth y 5 = (if isLeap y then 121 else 120)"
  "daysBeforeMonth y 6 = (if isLeap y then 152 else 151)"
  "daysBeforeMonth y 7 = (if isLeap y then 182 else 181)"
  "daysBeforeMonth y 8 = (if isLeap y then 213 else 212)"
  "daysBeforeMonth y 9 = (if isLeap y then 244 else 243)"
  "daysBeforeMonth y 10 = (if isLeap y then 274 else 273)"
  "daysBeforeMonth y 11 = (if isLeap y then 305 else 304)"
  "daysBeforeMonth y 12 = (if isLeap y then 335 else 334)"
  by (simp_all add: daysBeforeMonth_def daysBefore_def)

lemma monthOfYearDay_range: "monthOfYearDay y yd \<in> {1, 2, 3, 4, 5, 6, 7, 8, 9, 10, 11, 12}"
  by (simp add: monthOfYearDay_def)

lemma monthOfYearDay_le:
  "0 \<le> yd \<Longrightarrow> daysBeforeMonth y (monthOfYearDay y yd) \<le> yd"
  by (cases "isLeap y") (simp_all add: monthOfYearDay_def daysBeforeMonth_simps)

lemma daysBeforeMonth_nonneg:
  "m \<in> {1, 2, 3, 4, 5, 6, 7, 8, 9, 10, 11, 12} \<Longrightarrow> 0 \<le> daysBeforeMonth y m"
  by (auto simp: daysBeforeMonth_simps)

lemma monthOfYearDay_first:
  "m \<in> {1, 2, 3, 4, 5, 6, 7, 8, 9, 10, 11, 12} \<Longrightarrow> monthOfYearDay y (daysBeforeMonth y m) = m"
  by (cases "isLeap y") (auto simp: monthOfYearDay_def daysBeforeMonth_simps)

lemma month_norm:
  "m \<in> {1, 2, 3, 4, 5, 6, 7, 8, 9, 10, 11, 12} \<Longrightarrow> (m - 1) div 12 = 0 \<and> (m - 1) mod 12 + 1 = (m::int)"
  by auto

text \<open>What \<^verbatim>\<open>time.Date\<close> computes, by the offset it settles on.\<close>

lemma Date_dateOffset:
  "Date year month day hour minute sec nsec loc =
     (let y = year + (month - 1) div 12;
          m = (month - 1) mod 12 + 1;
          d = daysBeforeYear y + daysBeforeMonth y m + (day - 1);
          unix = d * 86400 + hour * 3600 + minute * 60 + sec
      in (unix - dateOffset loc unix) * 1000000000 + nsec)"
  by (simp add: Date_def dateOffset_def Let_def split: prod.splits)

lemma FixedZone_offsets:
  "zoneOffset (FixedZone off) sec = off" "dateOffset (FixedZone off) unix = off"
  by (simp_all add: zoneOffset_def dateOffset_def FixedZone_def Let_def)

lemma Date_of_today:
  "Date (Year loc now) (Month loc now) (Day loc now) h 0 0 0 loc
   = (localDay loc now * 86400 + h * 3600
      - dateOffset loc (localDay loc now * 86400 + h * 3600)) * 1000000000"
proof -
  have m: "Month loc now \<in> {1, 2, 3, 4, 5, 6, 7, 8, 9, 10, 11, 12}"
    unfolding Month_def by (rule monthOfYearDay_range)
  have "daysBeforeYear (Year loc now) + daysBeforeMonth (Year loc now) (Month loc now)
        + (Day loc now - 1) = localDay loc now"
    by (simp add: Day_def YearDay0_def)
  then show ?thesis
    unfolding Date_dateOffset Let_def using month_norm [OF m] by simp
qed

lemma Date_of_month:
  "Date (Year loc now) (Month loc now) 1 0 0 0 0 loc
   = ((daysBeforeYear (Year loc now) + daysBeforeMonth (Year loc now) (Month loc now)) * 86400
      - dateOffset loc
          ((daysBeforeYear (Year loc now) + daysBeforeMonth (Year loc now) (Month loc now)) * 86400))
     * 1000000000"
proof -
  have m: "Month loc now \<in> {1, 2, 3, 4, 5, 6, 7, 8, 9, 10, 11, 12}"
    unfolding Month_def by (rule monthOfYearDay_range)
  show ?thesis
    unfolding Date_dateOffset Let_def using month_norm [OF m] by simp
qed

text \<open>
  An instant obtained by subtracting an offset from wall-clock seconds reads those
  seconds on the local clock when that offset is the one in effect at the instant.
\<close>

lemma local_of_whole_seconds:
  assumes "zoneOffset loc (s - off) = off"
  shows "localSeconds loc ((s - off) * 1000000000) = s"
    and "Nanosecond ((s - off) * 1000000000) = 0"
  using assms by (simp_all add: localSeconds_def Nanosecond_def)

lemma local_of_day_offset:
  assumes "0 \<le> r" "r < 86400" "zoneOffset loc (d * 86400 + r - off) = off"
  shows "localDay loc ((d * 86400 + r - off) * 1000000000) = d"
    and "secondOfDay loc ((d * 86400 + r - off) * 1000000000) = r"
proof -
  have s: "localSeconds loc ((d * 86400 + r - off) * 1000000000) = d * 86400 + r"
    using assms(3) by (rule local_of_whole_seconds)
  have "(d * 86400 + r) div 86400 = d"
    using assms(1,2) by (intro int_div_pos_eq [where r = r]) simp_all
  then show "localDay loc ((d * 86400 + r - off) * 1000000000) = d"
    by (simp only: localDay_def s)
  have "(d * 86400 + r) mod 86400 = r"
    using assms(1,2) by (intro int_mod_pos_eq [where q = d]) simp_all
  then show "secondOfDay loc ((d * 86400 + r - off) * 1000000000) = r"
    by (simp only: secondOfDay_def s)
qed

lemma clock_recombine:
  fixes x :: int
  shows "x div 3600 * 3600 + x mod 3600 div 60 * 60 + x mod 60 = x"
proof -
  have "x mod 60 = x mod 3600 mod 60"
    by (simp add: mod_mod_cancel)
  then have "x mod 3600 div 60 * 60 + x mod 60 = x mod 3600"
    by (simp only: div_mult_mod_eq)
  then have "x div 3600 * 3600 + x mod 3600 div 60 * 60 + x mod 60 = x div 3600 * 3600 + x mod 3600"
    by (simp only: add.assoc)
  then show ?thesis by (simp only: div_mult_mod_eq)
qed

text \<open>
  \<^verbatim>\<open>AddDate(0, 0, k)\<close> keeps the local clock reading and moves the local date by \<open>k\<close> days;
  it is a shift by \<open>k\<close> times 24 hours when the offset that \<^verbatim>\<open>time.Date\<close> settles on for the
  new date is the offset in effect at the instant itself.
\<close>

lemma AddDate_days:
  "AddDate loc t 0 0 k
   = (localSeconds loc t + k * 86400 - dateOffset loc (localSeconds loc t + k * 86400)) * 1000000000
     + Nanosecond t"
proof -
  have m: "Month loc t \<in> {1, 2, 3, 4, 5, 6, 7, 8, 9, 10, 11, 12}"
    unfolding Month_def by (rule monthOfYearDay_range)
  have mn: "(Month loc t - 1) div 12 = 0" "(Month loc t - 1) mod 12 + 1 = Month loc t"
    using month_norm [OF m] by simp_all
  have d: "daysBeforeYear (Year loc t) + daysBeforeMonth (Year loc t) (Month loc t)
        + (Day loc t + k - 1) = localDay loc t + k"
    by (simp add: Day_def YearDay0_def)
  define sod where "sod = secondOfDay loc t"
  define ld where "ld = localDay loc t"
  define ls where "ls = localSeconds loc t"
  have c: "sod div 3600 * 3600 + sod mod 3600 div 60 * 60 + sod mod 60 = sod"
    by (rule clock_recombine)
  have l: "ld * 86400 + sod = ls"
    unfolding ld_def sod_def ls_def localDay_def secondOfDay_def by (simp only: div_mult_mod_eq)
  have "(ld + k) * 86400 + sod div 3600 * 3600 + sod mod 3600 div 60 * 60 + sod mod 60
        = (ld + k) * 86400 + (sod div 3600 * 3600 + sod mod 3600 div 60 * 60 + sod mod 60)"
    by simp
  also have "\<dots> = ls + k * 86400"
    by (simp only: c) (simp add: l [symmetric] algebra_simps)
  finally have u: "(ld + k) * 86400 + sod div 3600 * 3600 + sod mod 3600 div 60 * 60 + sod mod 60
           = ls + k * 86400" .
  have "AddDate loc t 0 0 k
        = ((ld + k) * 86400 + sod div 3600 * 3600 + sod mod 3600 div 60 * 60 + sod mod 60
           - dateOffset loc
               ((ld + k) * 86400 + sod div 3600 * 3600 + sod mod 3600 div 60 * 60 + sod mod 60))
          * 1000000000 + Nanosecond t"
    unfolding AddDate_def Date_dateOffset Let_def sod_def [symmetric]
    by (simp only: add_0_right mn d ld_def [symmetric])
  then show ?thesis
    by (simp only: u ls_def)
qed

lemma instant_recombine:
  "(localSeconds loc t - zoneOffset loc (t div 1000000000)) * 1000000000 + Nanosecond t = t"
  unfolding localSeconds_def Nanosecond_def
  by (simp only: add_diff_cancel_right' div_mult_mod_eq)

lemma AddDate_days_shift:
  "AddDate loc t 0 0 k
   = t + k * 86400 * 1000000000
     + (zoneOffset loc (t div 1000000000) - dateOffset loc (localSeconds loc t + k * 86400))
       * 1000000000"
proof -
  define ls where "ls = localSeconds loc t"
  define z where "z = zoneOffset loc (t div 1000000000)"
  define o' where "o' = dateOffset loc (ls + k * 86400)"
  have "AddDate loc t 0 0 k = (ls + k * 86400 - o') * 1000000000 + Nanosecond t"
    unfolding ls_def o'_def by (rule AddDate_days)
  also have "\<dots> = ((ls - z) * 1000000000 + Nanosecond t) + k * 86400 * 1000000000
               + (z - o') * 1000000000"
    by (simp add: algebra_simps)
  also have "(ls - z) * 1000000000 + Nanosecond t = t"
    unfolding ls_def z_def by (rule instant_recombine)
  finally show ?thesis
    unfolding ls_def z_def o'_def .
qed

section \<open>The time window of a period\<close>

lemma today_bounds:
  "startTimeOf loc now ''today''
   = (localDay loc now * 86400 + 1 * 3600 - dateOffset loc (localDay loc now * 86400 + 1 * 3600))
     * 1000000000"
  "endTimeOf loc now
   = (localDay loc now * 86400 + 23 * 3600 - dateOffset loc (localDay loc now * 86400 + 23 * 3600))
     * 1000000000"
  by (simp_all add: startTimeOf_def endTimeOf_def Date_of_today)

lemma today_start_local:
  "zoneOffset loc (startTimeOf loc now ''today'' div 1000000000)
     = dateOffset loc (localDay loc now * 86400 + 1 * 3600) \<longrightarrow>
   localDay loc (startTimeOf loc now ''today'') = localDay loc now
   \<and> secondOfDay loc (startTimeOf loc now ''today'') = 1 * 3600
   \<and> Nanosecond (startTimeOf loc now ''today'') = 0"
proof
  define off where "off = dateOffset loc (localDay loc now * 86400 + 1 * 3600)"
  have st: "startTimeOf loc now ''today'' = (localDay loc now * 86400 + 3600 - off) * 1000000000"
    by (simp add: today_bounds off_def)
  have sec: "startTimeOf loc now ''today'' div 1000000000 = localDay loc now * 86400 + 3600 - off"
    unfolding st by simp
  assume "zoneOffset loc (startTimeOf loc now ''today'' div 1000000000)
     = dateOffset loc (localDay loc now * 86400 + 1 * 3600)"
  then have z: "zoneOffset loc (localDay loc now * 86400 + 3600 - off) = off"
    by (simp only: sec off_def)
  have "localDay loc (startTimeOf loc now ''today'') = localDay loc now"
    "secondOfDay loc (startTimeOf loc now ''today'') = 3600"
    unfolding st using z by (intro local_of_day_offset; simp)+
  moreover have "Nanosecond (startTimeOf loc now ''today'') = 0"
    unfolding st using z by (rule local_of_whole_seconds)
  ultimately show "localDay loc (startTimeOf loc now ''today'') = localDay loc now
   \<and> secondOfDay loc (startTimeOf loc now ''today'') = 1 * 3600
   \<and> Nanosecond (startTimeOf loc now ''today'') = 0"
    by simp
qed

lemma today_end_local:
  "zoneOffset loc (endTimeOf loc now div 1000000000)
     = dateOffset loc (localDay loc now * 86400 + 23 * 3600) \<longrightarrow>
   localDay loc (endTimeOf loc now) = localDay loc now
   \<and> secondOfDay loc (endTimeOf loc now) = 23 * 3600
   \<and> Nanosecond (endTimeOf loc now) = 0"
proof
  define off where "off = dateOffset loc (localDay loc now * 86400 + 23 * 3600)"
  have en: "endTimeOf loc now = (localDay loc now * 86400 + 82800 - off) * 1000000000"
    by (simp add: today_bounds off_def)
  have sec: "endTimeOf loc now div 1000000000 = localDay loc now * 86400 + 82800 - off"
    unfolding en by simp
  assume "zoneOffset loc (endTimeOf loc now div 1000000000)
     = dateOffset loc (localDay loc now * 86400 + 23 * 3600)"
  then have z: "zoneOffset loc (localDay loc now * 86400 + 82800 - off) = off"
    by (simp only: sec off_def)
  have "localDay loc (endTimeOf loc now) = localDay loc now"
    "secondOfDay loc (endTimeOf loc now) = 82800"
    unfolding en using z by (intro local_of_day_offset; simp)+
  moreover have "Nanosecond (endTimeOf loc now) = 0"
    unfolding en using z by (rule local_of_whole_seconds)
  ultimately show "localDay loc (endTimeOf loc now) = localDay loc now
   \<and> secondOfDay loc (endTimeOf loc now) = 23 * 3600
   \<and> Nanosecond (endTimeOf loc now) = 0"
    by simp
qed

lemma today_filters:
  "runInPeriod loc ''today'' now st t = (st \<le> t \<and> t \<le> endTimeOf loc now)"
  "repoInPeriod loc ''today'' now st repo
     = (case (if repo_PushedAt repo \<noteq> None then repo_PushedAt repo else repo_UpdatedAt repo) of
          None \<Rightarrow> False
        | Some c \<Rightarrow> st \<le> c \<and> c \<le> endTimeOf loc now)"
  by (auto simp: runInPeriod_def repoInPeriod_def Let_def split: option.splits)

lemma other_filters:
  assumes "p \<noteq> ''today''"
  shows "runInPeriod loc p now st t = (st \<le> t)"
    "repoInPeriod loc p now st repo
     = (case (if repo_PushedAt repo \<noteq> None then repo_PushedAt repo else repo_UpdatedAt repo) of
          None \<Rightarrow> False
        | Some c \<Rightarrow> st \<le> c)"
  using assms by (auto simp: runInPeriod_def repoInPeriod_def Let_def split: option.splits)

lemma week_filters:
  "runInPeriod loc ''week'' now st t = (st \<le> t)"
  "repoInPeriod loc ''week'' now st repo
     = (case (if repo_PushedAt repo \<noteq> None then repo_PushedAt repo else repo_UpdatedAt repo) of
          None \<Rightarrow> False
        | Some c \<Rightarrow> st \<le> c)"
  by (rule other_filters; simp)+

lemma month_filters:
  "runInPeriod loc ''month'' now st t = (st \<le> t)"
  "repoInPeriod loc ''month'' now st repo
     = (case (if repo_PushedAt repo \<noteq> None then repo_PushedAt repo else repo_UpdatedAt repo) of
          None \<Rightarrow> False
        | Some c \<Rightarrow> st \<le> c)"
  by (rule other_filters; simp)+

lemma other_period:
  assumes "period \<noteq> ''today'' \<and> period \<noteq> ''week'' \<and> period \<noteq> ''month''"
  shows "periodOfQuery period = ''week''"
    "startTimeOf loc now period = startTimeOf loc now ''week''"
    "runInPeriod loc period now st t = runInPeriod loc ''week'' now st t"
    "repoInPeriod loc period now st repo = repoInPeriod loc ''week'' now st repo"
  using assms
  by (simp_all add: periodOfQuery_def startTimeOf_def other_filters week_filters)

lemma known_periods:
  "periodOfQuery ''today'' = ''today''" "periodOfQuery ''week'' = ''week''"
  "periodOfQuery ''month'' = ''month''"
  by (simp_all add: periodOfQuery_def)

lemma week_start_of:
  "startTimeOf loc now ''week''
   = now - 7 * 24 * Hour
     + (zoneOffset loc (now div 1000000000) - dateOffset loc (localSeconds loc now - 7 * 86400))
       * Second"
  using AddDate_days_shift [of loc now "- 7"]
  by (simp add: startTimeOf_def Hour_def Minute_def Second_def)

lemma week_start_local:
  "zoneOffset loc (startTimeOf loc now ''week'' div 1000000000)
     = dateOffset loc (localSeconds loc now - 7 * 86400) \<longrightarrow>
   localDay loc (startTimeOf loc now ''week'') = localDay loc now - 7
   \<and> secondOfDay loc (startTimeOf loc now ''week'') = secondOfDay loc now
   \<and> Nanosecond (startTimeOf loc now ''week'') = Nanosecond now"
proof
  define off where "off = dateOffset loc (localSeconds loc now - 7 * 86400)"
  define u where "u = localSeconds loc now - 7 * 86400"
  define ns where "ns = Nanosecond now"
  have ns: "0 \<le> ns" "ns < 1000000000"
    by (simp_all add: ns_def Nanosecond_def)
  have st: "startTimeOf loc now ''week'' = (u - off) * 1000000000 + ns"
    using AddDate_days [of loc now "- 7"] by (simp add: startTimeOf_def off_def u_def ns_def)
  have sec: "startTimeOf loc now ''week'' div 1000000000 = u - off"
    unfolding st using ns by (intro int_div_pos_eq [where r = ns]) simp_all
  have nano: "startTimeOf loc now ''week'' mod 1000000000 = ns"
    unfolding st using ns by (intro int_mod_pos_eq [where q = "u - off"]) simp_all
  assume "zoneOffset loc (startTimeOf loc now ''week'' div 1000000000)
     = dateOffset loc (localSeconds loc now - 7 * 86400)"
  then have "zoneOffset loc (u - off) = off"
    by (simp only: sec off_def u_def)
  then have ls: "localSeconds loc (startTimeOf loc now ''week'') = localSeconds loc now - 7 * 86400"
    by (simp add: localSeconds_def sec u_def)
  have "(localSeconds loc now - 7 * 86400) div 86400 = localSeconds loc now div 86400 - 7"
    using div_add_self2 [of 86400 "localSeconds loc now - 7 * 86400"]
      div_mult_self1 [of 86400 "localSeconds loc now" "- 7"] by simp
  moreover have "(localSeconds loc now - 7 * 86400) mod 86400 = localSeconds loc now mod 86400"
    using mod_mult_self1 [of "localSeconds loc now" "- 7" 86400] by simp
  ultimately show "localDay loc (startTimeOf loc now ''week'') = localDay loc now - 7
   \<and> secondOfDay loc (startTimeOf loc now ''week'') = secondOfDay loc now
   \<and> Nanosecond (startTimeOf loc now ''week'') = Nanosecond now"
    by (simp add: localDay_def secondOfDay_def ls Nanosecond_def [of "startTimeOf loc now ''week''"]
        nano ns_def)
qed

text \<open>
  The first day of the month of an instant, as a day number: the year and the month are
  the ones whose days enclose the local day of the instant.
\<close>

lemma monthOfYearDay_next:
  "0 \<le> yd \<Longrightarrow> monthOfYearDay y yd < 12 \<Longrightarrow> yd < daysBeforeMonth y (monthOfYearDay y yd + 1)"
  by (cases "isLeap y") (auto simp: monthOfYearDay_def daysBeforeMonth_simps split: if_splits)

lemma month_of_instant:
  "daysBeforeYear (Year loc now) \<le> localDay loc now"
  "localDay loc now < daysBeforeYear (Year loc now + 1)"
  "Month loc now \<in> {1, 2, 3, 4, 5, 6, 7, 8, 9, 10, 11, 12}"
  "daysBeforeYear (Year loc now) + daysBeforeMonth (Year loc now) (Month loc now) \<le> localDay loc now"
  "Month loc now < 12 \<longrightarrow>
     localDay loc now
     < daysBeforeYear (Year loc now) + daysBeforeMonth (Year loc now) (Month loc now + 1)"
  "Day loc now
   = localDay loc now
     - (daysBeforeYear (Year loc now) + daysBeforeMonth (Year loc now) (Month loc now)) + 1"
proof -
  show y: "daysBeforeYear (Year loc now) \<le> localDay loc now"
    "localDay loc now < daysBeforeYear (Year loc now + 1)"
    using yearOfDay_sound [of "localDay loc now"] by (simp_all add: Year_def)
  show "Month loc now \<in> {1, 2, 3, 4, 5, 6, 7, 8, 9, 10, 11, 12}"
    unfolding Month_def by (rule monthOfYearDay_range)
  have yd: "0 \<le> YearDay0 loc now"
    using y(1) by (simp add: YearDay0_def)
  then have "daysBeforeMonth (Year loc now) (Month loc now) \<le> YearDay0 loc now"
    unfolding Month_def by (rule monthOfYearDay_le)
  then show "daysBeforeYear (Year loc now) + daysBeforeMonth (Year loc now) (Month loc now)
             \<le> localDay loc now"
    by (simp add: YearDay0_def)
  show "Month loc now < 12 \<longrightarrow>
     localDay loc now
     < daysBeforeYear (Year loc now) + daysBeforeMonth (Year loc now) (Month loc now + 1)"
  proof
    assume "Month loc now < 12"
    then have "YearDay0 loc now < daysBeforeMonth (Year loc now) (Month loc now + 1)"
      unfolding Month_def using yd by (intro monthOfYearDay_next)
    then show "localDay loc now
     < daysBeforeYear (Year loc now) + daysBeforeMonth (Year loc now) (Month loc now + 1)"
      by (simp add: YearDay0_def)
  qed
  show "Day loc now
   = localDay loc now
     - (daysBeforeYear (Year loc now) + daysBeforeMonth (Year loc now) (Month loc now)) + 1"
    by (simp add: Day_def YearDay0_def)
qed

lemma month_start_of:
  "startTimeOf loc now ''month''
   = ((daysBeforeYear (Year loc now) + daysBeforeMonth (Year loc now) (Month loc now)) * 86400
      - dateOffset loc
          ((daysBeforeYear (Year loc now) + daysBeforeMonth (Year loc now) (Month loc now)) * 86400))
     * 1000000000"
  by (simp add: startTimeOf_def Date_of_month)

lemma month_start_local:
  "zoneOffset loc (startTimeOf loc now ''month'' div 1000000000)
     = dateOffset loc
         ((daysBeforeYear (Year loc now) + daysBeforeMonth (Year loc now) (Month loc now)) * 86400)
   \<longrightarrow>
   Year loc (startTimeOf loc now ''month'') = Year loc now
   \<and> Month loc (startTimeOf loc now ''month'') = Month loc now
   \<and> Day loc (startTimeOf loc now ''month'') = 1
   \<and> secondOfDay loc (startTimeOf loc now ''month'') = 0
   \<and> Nanosecond (startTimeOf loc now ''month'') = 0"
proof
  let ?Y = "Year loc now" and ?M = "Month loc now"
  let ?st = "startTimeOf loc now ''month''"
  let ?n = "daysBeforeYear ?Y + daysBeforeMonth ?Y ?M"
  define off where "off = dateOffset loc (?n * 86400)"
  have st: "?st = (?n * 86400 + 0 - off) * 1000000000"
    by (simp add: month_start_of off_def)
  have sec: "?st div 1000000000 = ?n * 86400 + 0 - off"
    unfolding st by simp
  assume "zoneOffset loc (?st div 1000000000) = dateOffset loc (?n * 86400)"
  then have z: "zoneOffset loc (?n * 86400 + 0 - off) = off"
    by (simp only: sec off_def)
  have day: "localDay loc ?st = ?n" and sod: "secondOfDay loc ?st = 0"
    unfolding st using z by (intro local_of_day_offset; simp)+
  have nano: "Nanosecond ?st = 0"
    unfolding st using z by (rule local_of_whole_seconds)
  note mi = month_of_instant [of loc now]
  have "daysBeforeYear ?Y \<le> ?n"
    using daysBeforeMonth_nonneg [OF mi(3)] by simp
  then have "yearOfDay ?n = ?Y"
    using mi(2,4) by (intro yearOfDay_unique) simp_all
  then have year: "Year loc ?st = ?Y"
    by (simp add: Year_def day)
  have yd: "YearDay0 loc ?st = daysBeforeMonth ?Y ?M"
    by (simp add: YearDay0_def day year)
  have "Month loc ?st = monthOfYearDay ?Y (daysBeforeMonth ?Y ?M)"
    by (simp only: Month_def [of loc ?st] year yd)
  then have month: "Month loc ?st = ?M"
    by (simp only: monthOfYearDay_first [OF mi(3)])
  have "Day loc ?st = 1"
    by (simp only: Day_def [of loc ?st] year yd month diff_self add_0)
  with year month sod nano
  show "Year loc ?st = ?Y \<and> Month loc ?st = ?M \<and> Day loc ?st = 1
        \<and> secondOfDay loc ?st = 0 \<and> Nanosecond ?st = 0"
    by simp
qed

text \<open>In a location with one offset for ever every reading is settled.\<close>

lemma fixed_zone_window:
  "startTimeOf (FixedZone off) now ''today'' = dayStart (FixedZone off) now + 1 * Hour"
  "endTimeOf (FixedZone off) now = dayStart (FixedZone off) now + 23 * Hour"
  "localDay (FixedZone off) (dayStart (FixedZone off) now) = localDay (FixedZone off) now"
  "secondOfDay (FixedZone off) (dayStart (FixedZone off) now) = 0"
  "secondOfDay (FixedZone off) (startTimeOf (FixedZone off) now ''today'') = 1 * 3600"
  "secondOfDay (FixedZone off) (endTimeOf (FixedZone off) now) = 23 * 3600"
  "startTimeOf (FixedZone off) now ''week'' = now - 7 * 24 * Hour"
  "Day (FixedZone off) (startTimeOf (FixedZone off) now ''month'') = 1"
  "secondOfDay (FixedZone off) (startTimeOf (FixedZone off) now ''month'') = 0"
proof -
  let ?loc = "FixedZone off"
  show a: "startTimeOf ?loc now ''today'' = dayStart ?loc now + 1 * Hour"
    "endTimeOf ?loc now = dayStart ?loc now + 23 * Hour"
    by (simp_all add: today_bounds dayStart_def FixedZone_offsets Hour_def Minute_def Second_def
        algebra_simps)
  have z: "zoneOffset ?loc (localDay ?loc now * 86400 + 0 - off) = off"
    by (rule FixedZone_offsets)
  have d: "dayStart ?loc now = (localDay ?loc now * 86400 + 0 - off) * 1000000000"
    by (simp add: dayStart_def FixedZone_offsets)
  show "localDay ?loc (dayStart ?loc now) = localDay ?loc now"
    "secondOfDay ?loc (dayStart ?loc now) = 0"
    unfolding d using z by (intro local_of_day_offset; simp)+
  show "secondOfDay ?loc (startTimeOf ?loc now ''today'') = 1 * 3600"
    using today_start_local [of ?loc now] by (simp add: FixedZone_offsets)
  show "secondOfDay ?loc (endTimeOf ?loc now) = 23 * 3600"
    using today_end_local [of ?loc now] by (simp add: FixedZone_offsets)
  show "startTimeOf ?loc now ''week'' = now - 7 * 24 * Hour"
    by (simp add: week_start_of FixedZone_offsets)
  show "Day ?loc (startTimeOf ?loc now ''month'') = 1"
    "secondOfDay ?loc (startTimeOf ?loc now ''month'') = 0"
    using month_start_local [of ?loc now] by (simp_all add: FixedZone_offsets)
qed

lemma other_period_imp:
  "period \<noteq> ''today'' \<and> period \<noteq> ''week'' \<and> period \<noteq> ''month'' \<longrightarrow>
     periodOfQuery period = ''week''
     \<and> startTimeOf loc now period = startTimeOf loc now ''week''
     \<and> runInPeriod loc period now st t = runInPeriod loc ''week'' now st t
     \<and> repoInPeriod loc period now st repo = repoInPeriod loc ''week'' now st repo"
  by (intro impI conjI) (erule other_period)+

text \<open>
  C8 (as amended). For every period keyword, location and current instant, with the
  wall-clock seconds counted from 1970-01-01 00:00:00 and \<open>dateOffset\<close> the offset that
  \<^verbatim>\<open>time.Date\<close> settles on for a reading:

  \<^item> "today": the window starts and ends at the instants that \<^verbatim>\<open>time.Date\<close> gives for
    01:00:00 and 23:00:00 of the current local day, and both filters keep an instant
    exactly when it lies between the two, bounds included. Each bound reads its time on
    the local clock of the current day when the offset in effect at the bound is the
    one \<^verbatim>\<open>time.Date\<close> settled on; a reading that a change of offset skips is not reached.
  \<^item> "week": the window starts at the instant that \<^verbatim>\<open>time.Date\<close> gives for the current
    clock reading seven calendar days earlier, which is the current instant minus seven
    days of 24 hours plus the difference between the offset in effect now and the offset
    settled on for the start; there is no upper bound.
  \<^item> "month": the window starts at the instant that \<^verbatim>\<open>time.Date\<close> gives for 00:00:00 on the
    first day of the current local month, the month being the one whose days enclose
    the current local day; there is no upper bound.
  \<^item> In a location with one offset for ever the bounds for "today" are 01:00:00 and
    23:00:00 of the current day, and the start for "week" is the current instant minus
    seven days of 24 hours.
  \<^item> Every other keyword, the empty one included, is handled as "week".
\<close>

theorem time_window_of_period:
  "(startTimeOf loc now ''today''
      = (localDay loc now * 86400 + 1 * 3600 - dateOffset loc (localDay loc now * 86400 + 1 * 3600))
        * 1000000000
    \<and> endTimeOf loc now
      = (localDay loc now * 86400 + 23 * 3600 - dateOffset loc (localDay loc now * 86400 + 23 * 3600))
        * 1000000000
    \<and> (zoneOffset loc (startTimeOf loc now ''today'' div 1000000000)
          = dateOffset loc (localDay loc now * 86400 + 1 * 3600) \<longrightarrow>
        localDay loc (startTimeOf loc now ''today'') = localDay loc now
        \<and> secondOfDay loc (startTimeOf loc now ''today'') = 1 * 3600
        \<and> Nanosecond (startTimeOf loc now ''today'') = 0)
    \<and> (zoneOffset loc (endTimeOf loc now div 1000000000)
          = dateOffset loc (localDay loc now * 86400 + 23 * 3600) \<longrightarrow>
        localDay loc (endTimeOf loc now) = localDay loc now
        \<and> secondOfDay loc (endTimeOf loc now) = 23 * 3600
        \<and> Nanosecond (endTimeOf loc now) = 0)
    \<and> runInPeriod loc ''today'' now st t = (st \<le> t \<and> t \<le> endTimeOf loc now)
    \<and> repoInPeriod loc ''today'' now st repo
      = (case (if repo_PushedAt repo \<noteq> None then repo_PushedAt repo else repo_UpdatedAt repo) of
           None \<Rightarrow> False
         | Some c \<Rightarrow> st \<le> c \<and> c \<le> endTimeOf loc now))
   \<and> (startTimeOf loc now ''week''
      = now - 7 * 24 * Hour
        + (zoneOffset loc (now div 1000000000) - dateOffset loc (localSeconds loc now - 7 * 86400))
          * Second
    \<and> (zoneOffset loc (startTimeOf loc now ''week'' div 1000000000)
          = dateOffset loc (localSeconds loc now - 7 * 86400) \<longrightarrow>
        localDay loc (startTimeOf loc now ''week'') = localDay loc now - 7
        \<and> secondOfDay loc (startTimeOf loc now ''week'') = secondOfDay loc now
        \<and> Nanosecond (startTimeOf loc now ''week'') = Nanosecond now)
    \<and> runInPeriod loc ''week'' now st t = (st \<le> t)
    \<and> repoInPeriod loc ''week'' now st repo
      = (case (if repo_PushedAt repo \<noteq> None then repo_PushedAt repo else repo_UpdatedAt repo) of
           None \<Rightarrow> False
         | Some c \<Rightarrow> st \<le> c))
   \<and> (daysBeforeYear (Year loc now) \<le> localDay loc now
    \<and> localDay loc now < daysBeforeYear (Year loc now + 1)
    \<and> Month loc now \<in> {1, 2, 3, 4, 5, 6, 7, 8, 9, 10, 11, 12}
    \<and> daysBeforeYear (Year loc now) + daysBeforeMonth (Year loc now) (Month loc now)
      \<le> localDay loc now
    \<and> (Month loc now < 12 \<longrightarrow>
        localDay loc now
        < daysBeforeYear (Year loc now) + daysBeforeMonth (Year loc now) (Month loc now + 1))
    \<and> Day loc now
      = localDay loc now
        - (daysBeforeYear (Year loc now) + daysBeforeMonth (Year loc now) (Month loc now)) + 1
    \<and> startTimeOf loc now ''month''
      = ((daysBeforeYear (Year loc now) + daysBeforeMonth (Year loc now) (Month loc now)) * 86400
         - dateOffset loc
             ((daysBeforeYear (Year loc now) + daysBeforeMonth (Year loc now) (Month loc now))
              * 86400))
        * 1000000000
    \<and> (zoneOffset loc (startTimeOf loc now ''month'' div 1000000000)
          = dateOffset loc
              ((daysBeforeYear (Year loc now) + daysBeforeMonth (Year loc now) (Month loc now))
               * 86400) \<longrightarrow>
        Year loc (startTimeOf loc now ''month'') = Year loc now
        \<and> Month loc (startTimeOf loc now ''month'') = Month loc now
        \<and> Day loc (startTimeOf loc now ''month'') = 1
        \<and> secondOfDay loc (startTimeOf loc now ''month'') = 0
        \<and> Nanosecond (startTimeOf loc now ''month'') = 0)
    \<and> runInPeriod loc ''month'' now st t = (st \<le> t)
    \<and> repoInPeriod loc ''month'' now st repo
      = (case (if repo_PushedAt repo \<noteq> None then repo_PushedAt repo else repo_UpdatedAt repo) of
           None \<Rightarrow> False
         | Some c \<Rightarrow> st \<le> c))
   \<and> (startTimeOf (FixedZone off) now ''today'' = dayStart (FixedZone off) now + 1 * Hour
    \<and> endTimeOf (FixedZone off) now = dayStart (FixedZone off) now + 23 * Hour
    \<and> localDay (FixedZone off) (dayStart (FixedZone off) now) = localDay (FixedZone off) now
    \<and> secondOfDay (FixedZone off) (dayStart (FixedZone off) now) = 0
    \<and> secondOfDay (FixedZone off) (startTimeOf (FixedZone off) now ''today'') = 1 * 3600
    \<and> secondOfDay (FixedZone off) (endTimeOf (FixedZone off) now) = 23 * 3600
    \<and> startTimeOf (FixedZone off) now ''week'' = now - 7 * 24 * Hour
    \<and> Day (FixedZone off) (startTimeOf (FixedZone off) now ''month'') = 1
    \<and> secondOfDay (FixedZone off) (startTimeOf (FixedZone off) now ''month'') = 0)
   \<and> (period \<noteq> ''today'' \<and> period \<noteq> ''week'' \<and> period \<noteq> ''month'' \<longrightarrow>
      periodOfQuery period = ''week''
      \<and> startTimeOf loc now period = startTimeOf loc now ''week''
      \<and> runInPeriod loc period now st t = runInPeriod loc ''week'' now st t
      \<and> repoInPeriod loc period now st repo = repoInPeriod loc ''week'' now st repo)
   \<and> periodOfQuery ''today'' = ''today'' \<and> periodOfQuery ''week'' = ''week''
   \<and> periodOfQuery ''month'' = ''month''"
  by (intro conjI)
    (rule today_bounds today_start_local today_end_local today_filters week_start_of
       week_start_local week_filters month_of_instant month_start_of month_start_local
       month_filters fixed_zone_window other_period_imp known_periods)+

text \<open>
  The example instants, evaluated: 2024-11-03 12:00:00 in New York, the day on which the
  clocks went back at 06:00:00 UTC, and 2024-03-15 19:00:00 in the location of the
  example cycles.
\<close>

lemma ex_newYork:
  "localDay newYork2024 nyNow = 20030"
  "secondOfDay newYork2024 nyNow = 43200"
  "localSeconds newYork2024 nyNow = 1730635200"
  "zoneOffset newYork2024 (nyNow div 1000000000) = - 18000"
  "dateOffset newYork2024 1730595600 = - 14400"
  "zoneOffset newYork2024 1730610000 = - 14400"
  "dateOffset newYork2024 1730030400 = - 14400"
  "Year newYork2024 nyNow = 2024" "Month newYork2024 nyNow = 11" "Day newYork2024 nyNow = 3"
  "daysBeforeYear 2024 = 19723" "daysBeforeMonth 2024 11 = 305"
  "dateOffset newYork2024 1730419200 = - 14400"
  "zoneOffset newYork2024 1730433600 = - 14400"
  by code_simp+

lemma ex_calendar:
  "Year exampleLoc exampleNow = 2024" "Month exampleLoc exampleNow = 3"
  "Day exampleLoc exampleNow = 15" "secondOfDay exampleLoc exampleNow = 19 * 3600"
  by code_simp+

theorem time_window_of_period_witness:
  "startTimeOf newYork2024 nyNow ''today'' = 1730610000 * 1000000000
   \<and> localDay newYork2024 (startTimeOf newYork2024 nyNow ''today'') = localDay newYork2024 nyNow
   \<and> secondOfDay newYork2024 (startTimeOf newYork2024 nyNow ''today'') = 1 * 3600
   \<and> startTimeOf newYork2024 nyNow ''week'' = nyNow - 169 * Hour
   \<and> Year newYork2024 nyNow = 2024 \<and> Month newYork2024 nyNow = 11 \<and> Day newYork2024 nyNow = 3
   \<and> startTimeOf newYork2024 nyNow ''month'' = 1730433600 * 1000000000
   \<and> Day newYork2024 (startTimeOf newYork2024 nyNow ''month'') = 1
   \<and> Month newYork2024 (startTimeOf newYork2024 nyNow ''month'') = 11
   \<and> periodOfQuery [] = ''week''
   \<and> startTimeOf newYork2024 nyNow [] = nyNow - 169 * Hour
   \<and> startTimeOf exampleLoc exampleNow ''week'' = exampleNow - 7 * 24 * Hour
   \<and> Year exampleLoc exampleNow = 2024 \<and> Month exampleLoc exampleNow = 3
   \<and> Day exampleLoc exampleNow = 15"
proof -
  note inst = time_window_of_period [where loc = newYork2024 and now = nyNow and period = "[]"
      and off = "7 * 3600"]
  note today = inst [THEN conjunct1]
  note week = inst [THEN conjunct2, THEN conjunct1]
  note month = inst [THEN conjunct2, THEN conjunct2, THEN conjunct1]
  note fixed = inst [THEN conjunct2, THEN conjunct2, THEN conjunct2, THEN conjunct1]
  note default = inst [THEN conjunct2, THEN conjunct2, THEN conjunct2, THEN conjunct2, THEN conjunct1]
  have st: "startTimeOf newYork2024 nyNow ''today'' = 1730610000 * 1000000000"
    using today [THEN conjunct1] by (simp add: ex_newYork)
  have "zoneOffset newYork2024 (startTimeOf newYork2024 nyNow ''today'' div 1000000000)
        = dateOffset newYork2024 (localDay newYork2024 nyNow * 86400 + 1 * 3600)"
    by (simp add: st ex_newYork)
  with today [THEN conjunct2, THEN conjunct2, THEN conjunct1]
  have local: "localDay newYork2024 (startTimeOf newYork2024 nyNow ''today'') = localDay newYork2024 nyNow"
    "secondOfDay newYork2024 (startTimeOf newYork2024 nyNow ''today'') = 1 * 3600"
    by blast+
  have wk: "startTimeOf newYork2024 nyNow ''week'' = nyNow - 169 * Hour"
    using week [THEN conjunct1] by (simp add: ex_newYork Hour_def Minute_def Second_def)
  have ms: "startTimeOf newYork2024 nyNow ''month'' = 1730433600 * 1000000000"
    using month [THEN conjunct2, THEN conjunct2, THEN conjunct2, THEN conjunct2, THEN conjunct2,
        THEN conjunct2, THEN conjunct1]
    by (simp add: ex_newYork)
  have "zoneOffset newYork2024 (startTimeOf newYork2024 nyNow ''month'' div 1000000000)
        = dateOffset newYork2024
            ((daysBeforeYear (Year newYork2024 nyNow)
              + daysBeforeMonth (Year newYork2024 nyNow) (Month newYork2024 nyNow)) * 86400)"
    by (simp add: ms ex_newYork)
  with month [THEN conjunct2, THEN conjunct2, THEN conjunct2, THEN conjunct2, THEN conjunct2,
        THEN conjunct2, THEN conjunct2, THEN conjunct1]
  have mday: "Day newYork2024 (startTimeOf newYork2024 nyNow ''month'') = 1"
    "Month newYork2024 (startTimeOf newYork2024 nyNow ''month'') = 11"
    by (simp_all add: ex_newYork)
  have other: "[] \<noteq> ''today'' \<and> [] \<noteq> ''week'' \<and> [] \<noteq> ''month''"
    by simp
  from default [THEN mp, OF other]
  have d: "periodOfQuery [] = ''week''"
    "startTimeOf newYork2024 nyNow [] = startTimeOf newYork2024 nyNow ''week''"
    by blast+
  have fx: "startTimeOf exampleLoc exampleNow ''week'' = exampleNow - 7 * 24 * Hour"
    using time_window_of_period [where off = "7 * 3600" and now = exampleNow,
        THEN conjunct2, THEN conjunct2, THEN conjunct2, THEN conjunct1]
    by (simp add: exampleLoc_def)
  show ?thesis
    using st local wk ms mday d fx by (simp add: ex_newYork ex_calendar)
qed

text \<open>
  The claim as stated fails in a location with daylight saving. In London on 2024-03-31
  the clocks went forward from 01:00:00 to 02:00:00, so no instant of that day reads
  01:00:00: the window for "today" starts at the instant that reads 02:00:00. In New
  York on 2024-11-03 at noon the window for "week" starts 169 hours before the current
  instant, at noon of 2024-10-27, and not seven days of 24 hours before it; on
  2024-03-10 at noon it starts 167 hours before the current instant.
\<close>

theorem time_window_counterexample:
  "localDay london2024 (startTimeOf london2024 londonNow ''today'') = localDay london2024 londonNow
   \<and> secondOfDay london2024 (startTimeOf london2024 londonNow ''today'') = 2 * 3600
   \<and> startTimeOf london2024 londonNow ''today'' = 1711846800 * 1000000000
   \<and> startTimeOf newYork2024 nyNow ''week'' = nyNow - 169 * Hour
   \<and> localDay newYork2024 (startTimeOf newYork2024 nyNow ''week'') = localDay newYork2024 nyNow - 7
   \<and> secondOfDay newYork2024 (startTimeOf newYork2024 nyNow ''week'') = 12 * 3600
   \<and> secondOfDay newYork2024 nyNow = 12 * 3600
   \<and> startTimeOf newYork2024 nySpringNow ''week'' = nySpringNow - 167 * Hour
   \<and> secondOfDay newYork2024 (startTimeOf newYork2024 nySpringNow ''week'') = 12 * 3600
   \<and> secondOfDay newYork2024 nySpringNow = 12 * 3600"
proof (intro conjI)
  show "localDay london2024 (startTimeOf london2024 londonNow ''today'') = localDay london2024 londonNow"
    by code_simp
  show "secondOfDay london2024 (startTimeOf london2024 londonNow ''today'') = 2 * 3600"
    by code_simp
  show "startTimeOf london2024 londonNow ''today'' = 1711846800 * 1000000000"
    by code_simp
  show "startTimeOf newYork2024 nyNow ''week'' = nyNow - 169 * Hour"
    by code_simp
  show "localDay newYork2024 (startTimeOf newYork2024 nyNow ''week'') = localDay newYork2024 nyNow - 7"
    by code_simp
  show "secondOfDay newYork2024 (startTimeOf newYork2024 nyNow ''week'') = 12 * 3600"
    by code_simp
  show "secondOfDay newYork2024 nyNow = 12 * 3600"
    by code_simp
  show "startTimeOf newYork2024 nySpringNow ''week'' = nySpringNow - 167 * Hour"
    by code_simp
  show "secondOfDay newYork2024 (startTimeOf newYork2024 nySpringNow ''week'') = 12 * 3600"
    by code_simp
  show "secondOfDay newYork2024 nySpringNow = 12 * 3600"
    by code_simp
qed

section \<open>The window of the runs behind the jobs\<close>

lemma startedInWindow_mono:
  "startedInWindow lo hi tr job \<Longrightarrow> startedInWindow lo hi (tr @ tr') job"
  by (auto simp: startedInWindow_def listedRuns_append list_ex_iff)

lemma startedInWindow_clock:
  "startedInWindow lo hi (tr @ map ClockRead cs) job = startedInWindow lo hi tr job"
  by (simp add: startedInWindow_def listedRuns_append listedRuns_clock)

lemma makeJob_fields:
  assumes "makeJob S org repo run w = Return (job, w')"
  shows "run_ID run = Some (RunID job)"
    and "run_CreatedAt run = None \<or> run_CreatedAt run = Some (CreatedAt job)"
  using assms unfolding makeJob_def
  by (auto simp: Let_def split: option.splits prod.splits)

lemma processRun_window:
  assumes step: "processRun (recording S) ''today'' now st org repo run (jobs, (w, tr))
                 = Return (jobs', (w', tr'))"
    and listed: "run \<in> set (listedRuns tr)"
    and inv: "\<forall>j \<in> set jobs. startedInWindow st (endTimeOf (Local S) now) tr j"
  shows "\<forall>j \<in> set jobs'. startedInWindow st (endTimeOf (Local S) now) tr' j"
proof -
  from processRun_trace [OF step] obtain cs where tr': "tr' = tr @ map ClockRead cs" ..
  show ?thesis
  proof (cases "jobs' = jobs")
    case True
    with inv show ?thesis by (simp add: tr' startedInWindow_clock)
  next
    case False
    with step obtain runTime job where
      rt: "runTimeOf run = Some runTime"
      and keep: "runInPeriod (Local S) ''today'' now st runTime"
      and job: "makeJob (recording S) org repo run (w, tr) = Return (job, (w', tr'))"
      and jobs': "jobs' = jobs @ [job]"
      by (auto simp: processRun_def recording_simps split: option.splits if_splits outcome.splits)
    from keep have "st \<le> runTime \<and> runTime \<le> endTimeOf (Local S) now"
      by (simp add: today_filters)
    with rt listed makeJob_fields [OF job]
    have "startedInWindow st (endTimeOf (Local S) now) tr job"
      by (auto simp: startedInWindow_def list_ex_iff)
    with inv show ?thesis
      by (auto simp: jobs' tr' startedInWindow_clock)
  qed
qed

lemma runs_loop_window:
  assumes loop: "forEach (processRun (recording S) ''today'' now st org repo) runs (jobs, (w, tr))
                 = Return (jobs', (w', tr'))"
    and listed: "set runs \<subseteq> set (listedRuns tr)"
    and inv: "\<forall>j \<in> set jobs. startedInWindow st (endTimeOf (Local S) now) tr j"
  shows "\<forall>j \<in> set jobs'. startedInWindow st (endTimeOf (Local S) now) tr' j"
proof -
  let ?I = "\<lambda>(js, (v, t)). set runs \<subseteq> set (listedRuns t)
              \<and> (\<forall>j \<in> set js. startedInWindow st (endTimeOf (Local S) now) t j)"
  have "?I (jobs', (w', tr'))"
  proof (rule forEach_invariant [OF loop])
    show "?I (jobs, (w, tr))" using listed inv by simp
  next
    fix x and t t' :: "Job list \<times> 'a \<times> event list"
    assume x: "x \<in> set runs" and I: "?I t"
      and step: "processRun (recording S) ''today'' now st org repo x t = Return t'"
    obtain js v u where t: "t = (js, (v, u))" by (metis prod.exhaust)
    obtain js' v' u' where t': "t' = (js', (v', u'))" by (metis prod.exhaust)
    from processRun_trace [OF step [unfolded t t']] obtain cs where u': "u' = u @ map ClockRead cs" ..
    have "x \<in> set (listedRuns u)" using x I t by auto
    moreover have "\<forall>j \<in> set js. startedInWindow st (endTimeOf (Local S) now) u j"
      using I t by simp
    ultimately have "\<forall>j \<in> set js'. startedInWindow st (endTimeOf (Local S) now) u' j"
      by (rule processRun_window [OF step [unfolded t t']])
    moreover have "set runs \<subseteq> set (listedRuns u')"
      using I t by (auto simp: u' listedRuns_append)
    ultimately show "?I t'" unfolding t' by simp
  qed
  then show ?thesis by simp
qed

lemma processRepo_window:
  assumes step: "processRepo (recording S) ''today'' now st org repo (jobs, rl, (w, tr))
                 = Return (jobs', rl', (w', tr'))"
    and inv: "\<forall>j \<in> set jobs. startedInWindow st (endTimeOf (Local S) now) tr j"
  shows "\<forall>j \<in> set jobs'. startedInWindow st (endTimeOf (Local S) now) tr' j"
proof -
  from step obtain name where name: "repo_Name repo = Some name"
    by (auto simp: processRepo_def split: option.splits)
  obtain r w1 where call: "ListRepositoryWorkflowRuns S org name w = (r, w1)"
    by (metis prod.exhaust)
  let ?tr1 = "tr @ [ListRunsCall org name r]"
  have inv1: "\<forall>j \<in> set jobs. startedInWindow st (endTimeOf (Local S) now) ?tr1 j"
    using inv by (simp add: startedInWindow_mono)
  show ?thesis
  proof (cases r)
    case (Inl e)
    with step name call have "jobs' = jobs" "tr' = ?tr1"
      by (auto simp: processRepo_def recording_simps)
    with inv1 show ?thesis by simp
  next
    case (Inr listing)
    obtain runs resp where listing: "listing = (runs, resp)" by (cases listing)
    from step name call Inr listing
    have loop: "forEach (processRun (recording S) ''today'' now st org name) runs (jobs, (w1, ?tr1))
                = Return (jobs', (w', tr'))"
      by (auto simp: processRepo_def recording_simps Let_def split: outcome.splits)
    have "set runs \<subseteq> set (listedRuns ?tr1)"
      using Inr listing by (simp add: listedRuns_append trace_Cons trace_Nil)
    with loop show ?thesis using inv1 by (rule runs_loop_window)
  qed
qed

lemma repos_loop_window:
  assumes loop: "forEach (processRepo (recording S) ''today'' now st org) repos (jobs, rl, (w, tr))
                 = Return (jobs', rl', (w', tr'))"
    and inv: "\<forall>j \<in> set jobs. startedInWindow st (endTimeOf (Local S) now) tr j"
  shows "\<forall>j \<in> set jobs'. startedInWindow st (endTimeOf (Local S) now) tr' j"
proof -
  let ?I = "\<lambda>(js, r, (v, t)). \<forall>j \<in> set js. startedInWindow st (endTimeOf (Local S) now) t j"
  have "?I (jobs', rl', (w', tr'))"
  proof (rule forEach_invariant [OF loop])
    show "?I (jobs, rl, (w, tr))" using inv by simp
  next
    fix x and t t' :: "Job list \<times> RateLimitInfo option \<times> 'a \<times> event list"
    assume I: "?I t" and step: "processRepo (recording S) ''today'' now st org x t = Return t'"
    obtain js r v u where t: "t = (js, r, (v, u))" by (metis prod.exhaust)
    obtain js' r' v' u' where t': "t' = (js', r', (v', u'))" by (metis prod.exhaust)
    from processRepo_window [OF step [unfolded t t']] I t
    show "?I t'" unfolding t' by simp
  qed
  then show ?thesis by simp
qed

lemma processOrg_window:
  assumes step: "processOrg (recording S) ''today'' now st org (jobs, rl, (w, tr))
                 = Return (jobs', rl', (w', tr'))"
    and inv: "\<forall>j \<in> set jobs. startedInWindow st (endTimeOf (Local S) now) tr j"
  shows "\<forall>j \<in> set jobs'. startedInWindow st (endTimeOf (Local S) now) tr' j"
proof -
  obtain r w1 where call: "ListByOrg S org w = (r, w1)"
    by (metis prod.exhaust)
  let ?tr1 = "tr @ [ListByOrgCall org r]"
  have inv1: "\<forall>j \<in> set jobs. startedInWindow st (endTimeOf (Local S) now) ?tr1 j"
    using inv by (simp add: startedInWindow_mono)
  show ?thesis
  proof (cases r)
    case (Inl e)
    with step call have "jobs' = jobs" "tr' = ?tr1"
      by (auto simp: processOrg_def recording_simps)
    with inv1 show ?thesis by simp
  next
    case (Inr listing)
    obtain repos resp where listing: "listing = (repos, resp)" by (cases listing)
    from step call Inr listing obtain rl1 where
      loop: "forEach (processRepo (recording S) ''today'' now st org)
               (filter (repoInPeriod (Local S) ''today'' now st) repos) (jobs, rl1, (w1, ?tr1))
             = Return (jobs', rl', (w', tr'))"
      by (auto simp: processOrg_def recording_simps Let_def)
    from loop inv1 show ?thesis by (rule repos_loop_window)
  qed
qed

lemma orgs_loop_window:
  assumes loop: "forEach (processOrg (recording S) ''today'' now st) orgs (jobs, rl, (w, tr))
                 = Return (jobs', rl', (w', tr'))"
    and inv: "\<forall>j \<in> set jobs. startedInWindow st (endTimeOf (Local S) now) tr j"
  shows "\<forall>j \<in> set jobs'. startedInWindow st (endTimeOf (Local S) now) tr' j"
proof -
  let ?I = "\<lambda>(js, r, (v, t)). \<forall>j \<in> set js. startedInWindow st (endTimeOf (Local S) now) t j"
  have "?I (jobs', rl', (w', tr'))"
  proof (rule forEach_invariant [OF loop])
    show "?I (jobs, rl, (w, tr))" using inv by simp
  next
    fix x and t t' :: "Job list \<times> RateLimitInfo option \<times> 'a \<times> event list"
    assume I: "?I t" and step: "processOrg (recording S) ''today'' now st x t = Return t'"
    obtain js r v u where t: "t = (js, r, (v, u))" by (metis prod.exhaust)
    obtain js' r' v' u' where t': "t' = (js', r', (v', u'))" by (metis prod.exhaust)
    from processOrg_window [OF step [unfolded t t']] I t
    show "?I t'" unfolding t' by simp
  qed
  then show ?thesis by simp
qed

lemma fetchWorkflowRuns_window:
  assumes fetch: "fetchWorkflowRuns (recording S) orgs ''today'' (w, tr0) = Return ((jobs, rl, err), (w', tr))"
    and contract: "sortSliceContract (sort_Slice S)"
    and now: "time_Now S w = (now, w0)"
  shows "\<forall>j \<in> set jobs.
           startedInWindow (startTimeOf (Local S) now ''today'') (endTimeOf (Local S) now) tr j"
proof -
  let ?st = "startTimeOf (Local S) now ''today''"
  from fetch now obtain allJobs rl1 w1 tr1 where
    loop: "forEach (processOrg (recording S) ''today'' now ?st) orgs ([], None, (w0, tr0 @ [ClockRead now]))
           = Return (allJobs, rl1, (w1, tr1))"
    and jobs: "jobs = sort_Slice S createdAfter allJobs"
    and tr: "tr = tr1 \<or> (\<exists>t. tr = tr1 @ map ClockRead [t])"
    by (auto simp: fetchWorkflowRuns_def recording_simps Let_def
        split: outcome.splits option.splits prod.splits)
  have "\<forall>j \<in> set allJobs. startedInWindow ?st (endTimeOf (Local S) now) tr1 j"
    by (rule orgs_loop_window [OF loop]) simp
  moreover have "set jobs = set allJobs"
    using contract jobs by (simp add: contract_set)
  ultimately show "\<forall>j \<in> set jobs. startedInWindow ?st (endTimeOf (Local S) now) tr j"
    using tr by (auto simp: startedInWindow_mono)
qed

text \<open>
  Between the two bounds the local clock reads a time from 01:00:00 to 23:00:00 of the
  current day, in a location that keeps one offset from the first bound to the second.
\<close>

lemma window_local:
  assumes lo: "startTimeOf loc now ''today'' \<le> t" and hi: "t \<le> endTimeOf loc now"
    and steady: "\<forall>sec. startTimeOf loc now ''today'' div 1000000000 \<le> sec
                   \<and> sec \<le> endTimeOf loc now div 1000000000 \<longrightarrow> zoneOffset loc sec = off"
    and o1: "dateOffset loc (localDay loc now * 86400 + 1 * 3600) = off"
    and o2: "dateOffset loc (localDay loc now * 86400 + 23 * 3600) = off"
  shows "localDay loc t = localDay loc now"
    and "1 * 3600 \<le> secondOfDay loc t" and "secondOfDay loc t \<le> 23 * 3600"
proof -
  define D where "D = localDay loc now"
  define q where "q = t div 1000000000"
  have st: "startTimeOf loc now ''today'' = (D * 86400 + 3600 - off) * 1000000000"
    and en: "endTimeOf loc now = (D * 86400 + 82800 - off) * 1000000000"
    using o1 o2 by (simp_all add: today_bounds D_def)
  have sdiv: "startTimeOf loc now ''today'' div 1000000000 = D * 86400 + 3600 - off"
    and ediv: "endTimeOf loc now div 1000000000 = D * 86400 + 82800 - off"
    unfolding st en by simp_all
  have "startTimeOf loc now ''today'' div 1000000000 \<le> q" "q \<le> endTimeOf loc now div 1000000000"
    unfolding q_def using lo hi by (simp_all add: zdiv_mono1)
  then have q: "D * 86400 + 3600 - off \<le> q" "q \<le> D * 86400 + 82800 - off"
    and z: "zoneOffset loc q = off"
    using steady by (simp_all add: sdiv ediv)
  define r where "r = q + off - D * 86400"
  have r: "3600 \<le> r" "r \<le> 82800" using q by (simp_all add: r_def)
  have ls: "localSeconds loc t = D * 86400 + r"
    by (simp add: localSeconds_def q_def [symmetric] z r_def)
  have "(D * 86400 + r) div 86400 = D"
    using r by (intro int_div_pos_eq [where r = r]) simp_all
  then show "localDay loc t = localDay loc now"
    by (simp only: localDay_def ls D_def)
  have "(D * 86400 + r) mod 86400 = r"
    using r by (intro int_mod_pos_eq [where q = D]) simp_all
  then have "secondOfDay loc t = r"
    by (simp only: secondOfDay_def ls)
  with r show "1 * 3600 \<le> secondOfDay loc t" "secondOfDay loc t \<le> 23 * 3600"
    by simp_all
qed

subsection \<open>The example cycle for "today", recorded\<close>

lemma ex_today_window:
  "startTimeOf exampleLoc exampleNow ''today'' = exampleNow - 18 * Hour"
  "endTimeOf exampleLoc exampleNow = exampleNow + 4 * Hour"
  by code_simp+

lemma ex_today_dayStart: "dayStart exampleLoc exampleNow = exampleNow - 19 * Hour"
  by code_simp

text \<open>
  New York on 2024-11-03, when the clocks went back at 06:00:00 UTC: 23:00:00 is read
  at 04:00:00 UTC of the next day, and a run started at 05:30:00 UTC, which read
  01:30:00 before the change, is in the window.
\<close>

lemma ex_today_newYork:
  "dateOffset newYork2024 1730674800 = - 18000"
  "runInPeriod newYork2024 ''today'' nyNow (1730610000 * 1000000000) (1730611800 * 1000000000)"
  "secondOfDay newYork2024 (1730611800 * 1000000000) = 5400"
  by code_simp+

lemma ex_today_filters:
  "repoInPeriod exampleLoc ''today'' exampleNow (exampleNow - 18 * Hour) (exampleRepo name)"
  "runInPeriod exampleLoc ''today'' exampleNow (exampleNow - 18 * Hour) (exampleNow - 2 * Hour)"
  by (simp_all add: today_filters ex_today_window exampleRepo_def Hour_def Minute_def Second_def)

lemma ex_makeJob_recorded:
  assumes "length org = 5"
  shows "makeJob (recording exampleSys) org ''web'' (exampleRun 5) (exampleNow, tr)
         = Return (exampleJob org, (exampleNow, tr @ [ClockRead exampleNow]))"
  using assms
  by (simp add: makeJob_def runDuration_def runStarted_def formatTimeAgo_def recording_simps
      exampleSys_simps exampleRun_def exampleJob_def ex_duration ex_started ex_fmt ex_status)

lemma ex_today_recorded:
  "dashboardHandler (recording exampleSys) [''gamma''] ''today'' (exampleNow, [])
   = Return (HttpOK \<lparr>Stats = \<lparr>Success = 1, Failed = 0, Running = 0, Pending = 0, Total = 1\<rparr>,
                     Jobs = [exampleJob ''gamma''],
                     RateLimit = rateLimitInfoOf (exampleRate 4980)\<rparr>,
             (exampleNow,
              [ClockRead exampleNow, ClockRead exampleNow,
               ListByOrgCall ''gamma'' (exampleRepos ''gamma''),
               ListRunsCall ''gamma'' ''api'' (exampleRuns ''gamma'' ''api''),
               ListRunsCall ''gamma'' ''web'' (exampleRuns ''gamma'' ''web''),
               ClockRead exampleNow, ClockRead exampleNow]))"
proof -
  let ?st = "exampleNow - 18 * Hour"
  let ?tr1 = "[ClockRead exampleNow, ClockRead exampleNow,
              ListByOrgCall ''gamma'' (exampleRepos ''gamma'')]"
  let ?tr2 = "?tr1 @ [ListRunsCall ''gamma'' ''api'' (exampleRuns ''gamma'' ''api'')]"
  let ?tr3 = "?tr2 @ [ListRunsCall ''gamma'' ''web'' (exampleRuns ''gamma'' ''web'')]"
  have api: "processRepo (recording exampleSys) ''today'' exampleNow ?st ''gamma'' (exampleRepo ''api'')
               ([], Some (rateLimitInfoOf (exampleRate 4990)), (exampleNow, ?tr1))
             = Return ([], Some (rateLimitInfoOf (exampleRate 4990)), (exampleNow, ?tr2))"
    by (simp add: processRepo_def exampleRepo_def recording_simps exampleSys_simps exampleRuns_def)
  have job: "makeJob (recording exampleSys) ''gamma'' ''web'' (exampleRun 5) (exampleNow, ?tr3)
             = Return (exampleJob ''gamma'', (exampleNow, ?tr3 @ [ClockRead exampleNow]))"
    by (rule ex_makeJob_recorded) simp
  have web: "processRepo (recording exampleSys) ''today'' exampleNow ?st ''gamma'' (exampleRepo ''web'')
               ([], Some (rateLimitInfoOf (exampleRate 4990)), (exampleNow, ?tr2))
             = Return ([exampleJob ''gamma''], Some (rateLimitInfoOf (exampleRate 4980)),
                       (exampleNow, ?tr3 @ [ClockRead exampleNow]))"
    using job
    by (simp add: processRepo_def processRun_def exampleRepo_def recording_simps exampleSys_simps
        exampleRuns_def ex_runInPeriod ex_today_filters)
  have org: "processOrg (recording exampleSys) ''today'' exampleNow ?st ''gamma''
               ([], None, (exampleNow, [ClockRead exampleNow, ClockRead exampleNow]))
             = Return ([exampleJob ''gamma''], Some (rateLimitInfoOf (exampleRate 4980)),
                       (exampleNow, ?tr3 @ [ClockRead exampleNow]))"
    using api web
    by (simp add: processOrg_def recording_simps exampleSys_simps exampleRepos_def ex_today_filters
        exampleRuns_def)
  show ?thesis
    using org
    by (simp add: dashboardHandler_def fetchWorkflowRuns_def known_periods recording_simps
        exampleSys_simps ex_today_window insertionSort_def calculateStats_def countJob_def
        exampleJob_def [of "''gamma''", THEN arg_cong [of _ _ Status]])
qed

lemma dashboardHandler_window:
  assumes handler: "dashboardHandler (recording S) orgs ''today'' (w, []) = Return (HttpOK resp, (w', tr))"
    and contract: "sortSliceContract (sort_Slice S)"
    and start: "time_Now S w = (t0, wa)"
    and now: "time_Now S wa = (now, w0)"
  shows "\<forall>j \<in> set (Jobs resp).
           startedInWindow (startTimeOf (Local S) now ''today'') (endTimeOf (Local S) now) tr j"
proof -
  from handler start obtain jobs rl err w1 tr1 where
    fetch: "fetchWorkflowRuns (recording S) orgs ''today'' (wa, [ClockRead t0])
            = Return ((jobs, rl, err), (w1, tr1))"
    by (auto simp: dashboardHandler_def recording_simps known_periods Let_def split: outcome.splits)
  obtain t1 wb where finish: "time_Now S w1 = (t1, wb)"
    by (metis prod.exhaust)
  from fetchWorkflowRuns_no_error [OF fetch] obtain r where "err = None" "rl = Some r"
    by auto
  with handler start fetch finish have "Jobs resp = jobs" "tr = tr1 @ [ClockRead t1]"
    by (auto simp: dashboardHandler_def recording_simps known_periods Let_def)
  with fetchWorkflowRuns_window [OF fetch contract now] show ?thesis
    by (auto simp: startedInWindow_mono)
qed

text \<open>
  C2 (as amended). For the period "today", every job of the response stems from a run
  that a run listing of the cycle returned and whose start instant, RunStartedAt when the
  run has one and CreatedAt otherwise, lies between the two bounds of the window, bounds
  included: the instants that \<^verbatim>\<open>time.Date\<close> gives for 01:00:00 and 23:00:00 of the current
  local day, the current day being the day of the instant that fetchWorkflowRuns reads
  when it starts, which is the second reading of the cycle (the first one times the
  cycle for the log). In a location that keeps one offset from the first bound to the
  second, the start instant of the run, converted to local time, lies within 01:00:00
  and 23:00:00 of the current day. The job carries the creation instant of the run, so
  its own creation instant lies in the window when the run has no RunStartedAt.
\<close>

theorem today_jobs_started_in_window:
  "startTimeOf (Local S) now ''today''
     = (localDay (Local S) now * 86400 + 1 * 3600
        - dateOffset (Local S) (localDay (Local S) now * 86400 + 1 * 3600)) * 1000000000
   \<and> endTimeOf (Local S) now
     = (localDay (Local S) now * 86400 + 23 * 3600
        - dateOffset (Local S) (localDay (Local S) now * 86400 + 23 * 3600)) * 1000000000
   \<and> (dashboardHandler (recording S) orgNames ''today'' (w, []) = Return (HttpOK resp, (w', tr))
      \<and> sortSliceContract (sort_Slice S)
      \<and> time_Now S w = (t0, wa) \<and> time_Now S wa = (now, w0) \<longrightarrow>
      (\<forall>job \<in> set (Jobs resp). \<exists>run \<in> set (listedRuns tr). \<exists>runTime.
          run_ID run = Some (RunID job)
        \<and> (run_CreatedAt run = None \<or> run_CreatedAt run = Some (CreatedAt job))
        \<and> runTimeOf run = Some runTime
        \<and> startTimeOf (Local S) now ''today'' \<le> runTime
        \<and> runTime \<le> endTimeOf (Local S) now
        \<and> (run_RunStartedAt run = None \<longrightarrow> CreatedAt job = runTime)
        \<and> ((\<forall>sec. startTimeOf (Local S) now ''today'' div 1000000000 \<le> sec
                  \<and> sec \<le> endTimeOf (Local S) now div 1000000000 \<longrightarrow>
                  zoneOffset (Local S) sec = off)
           \<and> dateOffset (Local S) (localDay (Local S) now * 86400 + 1 * 3600) = off
           \<and> dateOffset (Local S) (localDay (Local S) now * 86400 + 23 * 3600) = off \<longrightarrow>
           localDay (Local S) runTime = localDay (Local S) now
           \<and> 1 * 3600 \<le> secondOfDay (Local S) runTime
           \<and> secondOfDay (Local S) runTime \<le> 23 * 3600)))"
proof (intro conjI impI ballI)
  show "startTimeOf (Local S) now ''today''
     = (localDay (Local S) now * 86400 + 1 * 3600
        - dateOffset (Local S) (localDay (Local S) now * 86400 + 1 * 3600)) * 1000000000"
    "endTimeOf (Local S) now
     = (localDay (Local S) now * 86400 + 23 * 3600
        - dateOffset (Local S) (localDay (Local S) now * 86400 + 23 * 3600)) * 1000000000"
    by (rule today_bounds)+
next
  fix job
  assume h: "dashboardHandler (recording S) orgNames ''today'' (w, []) = Return (HttpOK resp, (w', tr))
      \<and> sortSliceContract (sort_Slice S)
      \<and> time_Now S w = (t0, wa) \<and> time_Now S wa = (now, w0)"
    and job: "job \<in> set (Jobs resp)"
  let ?loc = "Local S"
  let ?lo = "startTimeOf ?loc now ''today''" and ?hi = "endTimeOf ?loc now"
  let ?steady = "(\<forall>sec. ?lo div 1000000000 \<le> sec \<and> sec \<le> ?hi div 1000000000 \<longrightarrow>
                  zoneOffset ?loc sec = off)
           \<and> dateOffset ?loc (localDay ?loc now * 86400 + 1 * 3600) = off
           \<and> dateOffset ?loc (localDay ?loc now * 86400 + 23 * 3600) = off"
  from h have "\<forall>j \<in> set (Jobs resp). startedInWindow ?lo ?hi tr j"
    by (elim conjE) (rule dashboardHandler_window; assumption)
  with job have "startedInWindow ?lo ?hi tr job" by simp
  then obtain run runTime where run: "run \<in> set (listedRuns tr)"
    and id: "run_ID run = Some (RunID job)"
    and created: "run_CreatedAt run = None \<or> run_CreatedAt run = Some (CreatedAt job)"
    and rt: "runTimeOf run = Some runTime" and lo: "?lo \<le> runTime" and hi: "runTime \<le> ?hi"
    by (auto simp: startedInWindow_def list_ex_iff split: option.splits)
  have c: "run_RunStartedAt run = None \<longrightarrow> CreatedAt job = runTime"
    using rt created by (auto simp: runTimeOf_def split: if_splits)
  have l: "?steady \<longrightarrow>
           localDay ?loc runTime = localDay ?loc now
           \<and> 1 * 3600 \<le> secondOfDay ?loc runTime
           \<and> secondOfDay ?loc runTime \<le> 23 * 3600"
  proof (intro impI conjI)
    assume s: ?steady
    show "localDay ?loc runTime = localDay ?loc now"
      using lo hi s by (elim conjE) (rule window_local(1); assumption)
    show "1 * 3600 \<le> secondOfDay ?loc runTime"
      using lo hi s by (elim conjE) (rule window_local(2); assumption)
    show "secondOfDay ?loc runTime \<le> 23 * 3600"
      using lo hi s by (elim conjE) (rule window_local(3); assumption)
  qed
  from id created rt lo hi c l
  have "run_ID run = Some (RunID job)
        \<and> (run_CreatedAt run = None \<or> run_CreatedAt run = Some (CreatedAt job))
        \<and> runTimeOf run = Some runTime
        \<and> ?lo \<le> runTime \<and> runTime \<le> ?hi
        \<and> (run_RunStartedAt run = None \<longrightarrow> CreatedAt job = runTime)
        \<and> (?steady \<longrightarrow>
           localDay ?loc runTime = localDay ?loc now
           \<and> 1 * 3600 \<le> secondOfDay ?loc runTime
           \<and> secondOfDay ?loc runTime \<le> 23 * 3600)"
    by (intro conjI)
  with run
  show "\<exists>run \<in> set (listedRuns tr). \<exists>runTime.
          run_ID run = Some (RunID job)
        \<and> (run_CreatedAt run = None \<or> run_CreatedAt run = Some (CreatedAt job))
        \<and> runTimeOf run = Some runTime
        \<and> ?lo \<le> runTime \<and> runTime \<le> ?hi
        \<and> (run_RunStartedAt run = None \<longrightarrow> CreatedAt job = runTime)
        \<and> (?steady \<longrightarrow>
           localDay ?loc runTime = localDay ?loc now
           \<and> 1 * 3600 \<le> secondOfDay ?loc runTime
           \<and> secondOfDay ?loc runTime \<le> 23 * 3600)"
    by (intro bexI [of _ run] exI [of _ runTime])
qed

theorem today_jobs_started_in_window_witness:
  "dashboardHandler (recording exampleSys) [''gamma''] ''today'' (exampleNow, [])
   = Return (HttpOK \<lparr>Stats = \<lparr>Success = 1, Failed = 0, Running = 0, Pending = 0, Total = 1\<rparr>,
                     Jobs = [exampleJob ''gamma''],
                     RateLimit = rateLimitInfoOf (exampleRate 4980)\<rparr>,
             (exampleNow,
              [ClockRead exampleNow, ClockRead exampleNow,
               ListByOrgCall ''gamma'' (exampleRepos ''gamma''),
               ListRunsCall ''gamma'' ''api'' (exampleRuns ''gamma'' ''api''),
               ListRunsCall ''gamma'' ''web'' (exampleRuns ''gamma'' ''web''),
               ClockRead exampleNow, ClockRead exampleNow]))
   \<and> sortSliceContract (sort_Slice exampleSys)
   \<and> time_Now exampleSys exampleNow = (exampleNow, exampleNow)
   \<and> startTimeOf exampleLoc exampleNow ''today'' = exampleNow - 18 * Hour
   \<and> endTimeOf exampleLoc exampleNow = exampleNow + 4 * Hour
   \<and> (\<exists>run \<in> set (listedRuns
              [ClockRead exampleNow, ClockRead exampleNow,
               ListByOrgCall ''gamma'' (exampleRepos ''gamma''),
               ListRunsCall ''gamma'' ''api'' (exampleRuns ''gamma'' ''api''),
               ListRunsCall ''gamma'' ''web'' (exampleRuns ''gamma'' ''web''),
               ClockRead exampleNow, ClockRead exampleNow]). \<exists>runTime.
          run_ID run = Some (RunID (exampleJob ''gamma''))
        \<and> runTimeOf run = Some runTime
        \<and> exampleNow - 18 * Hour \<le> runTime
        \<and> runTime \<le> exampleNow + 4 * Hour
        \<and> localDay exampleLoc runTime = localDay exampleLoc exampleNow
        \<and> 1 * 3600 \<le> secondOfDay exampleLoc runTime
        \<and> secondOfDay exampleLoc runTime \<le> 23 * 3600)
   \<and> startTimeOf newYork2024 nyNow ''today'' = 1730610000 * 1000000000
   \<and> endTimeOf newYork2024 nyNow = 1730692800 * 1000000000
   \<and> runInPeriod newYork2024 ''today'' nyNow (1730610000 * 1000000000) (1730611800 * 1000000000)"
proof -
  let ?tr = "[ClockRead exampleNow, ClockRead exampleNow,
               ListByOrgCall ''gamma'' (exampleRepos ''gamma''),
               ListRunsCall ''gamma'' ''api'' (exampleRuns ''gamma'' ''api''),
               ListRunsCall ''gamma'' ''web'' (exampleRuns ''gamma'' ''web''),
               ClockRead exampleNow, ClockRead exampleNow]"
  let ?resp = "\<lparr>Stats = \<lparr>Success = 1, Failed = 0, Running = 0, Pending = 0, Total = 1\<rparr>,
                     Jobs = [exampleJob ''gamma''],
                     RateLimit = rateLimitInfoOf (exampleRate 4980)\<rparr>"
  have c: "sortSliceContract (sort_Slice exampleSys)"
    by (simp add: exampleSys_simps insertionSort_contract)
  have n: "time_Now exampleSys exampleNow = (exampleNow, exampleNow)"
    by (simp add: exampleSys_simps)
  have steady: "(\<forall>sec. startTimeOf exampleLoc exampleNow ''today'' div 1000000000 \<le> sec
                  \<and> sec \<le> endTimeOf exampleLoc exampleNow div 1000000000 \<longrightarrow>
                  zoneOffset exampleLoc sec = 7 * 3600)
           \<and> dateOffset exampleLoc (localDay exampleLoc exampleNow * 86400 + 1 * 3600) = 7 * 3600
           \<and> dateOffset exampleLoc (localDay exampleLoc exampleNow * 86400 + 23 * 3600) = 7 * 3600"
    by (simp add: exampleLoc_def FixedZone_offsets)
  note inst = today_jobs_started_in_window [where S = exampleSys and orgNames = "[''gamma'']"
      and w = exampleNow and resp = ?resp and w' = exampleNow and tr = ?tr and now = exampleNow
      and ?w0.0 = exampleNow and ?t0.0 = exampleNow and wa = exampleNow and off = "7 * 3600",
      THEN conjunct2, THEN conjunct2, THEN mp,
      OF conjI [OF ex_today_recorded conjI [OF c conjI [OF n n]]]]
  from inst steady have "\<exists>run \<in> set (listedRuns ?tr). \<exists>runTime.
          run_ID run = Some (RunID (exampleJob ''gamma''))
        \<and> runTimeOf run = Some runTime
        \<and> exampleNow - 18 * Hour \<le> runTime
        \<and> runTime \<le> exampleNow + 4 * Hour
        \<and> localDay exampleLoc runTime = localDay exampleLoc exampleNow
        \<and> 1 * 3600 \<le> secondOfDay exampleLoc runTime
        \<and> secondOfDay exampleLoc runTime \<le> 23 * 3600"
    by (simp add: exampleSys_simps ex_today_window) blast
  note ny = today_jobs_started_in_window [where S = "scripted newYork2024 exampleRepos exampleRuns"
      and now = nyNow]
  have nyb: "startTimeOf newYork2024 nyNow ''today'' = 1730610000 * 1000000000"
    "endTimeOf newYork2024 nyNow = 1730692800 * 1000000000"
    using ny [THEN conjunct1] ny [THEN conjunct2, THEN conjunct1]
    by (simp_all add: scripted_def ex_newYork ex_today_newYork)
  from \<open>\<exists>run \<in> set (listedRuns ?tr). _\<close> ex_today_recorded c n ex_today_window nyb ex_today_newYork(2)
  show ?thesis by simp
qed

text \<open>
  The claim as stated fails: in the example cycle for "today" the run of "web" started
  at 17:00:00 of the current day and was created on the day before; its job is in the
  response, and the creation instant of the job lies before the current day begins.
\<close>

theorem today_created_at_counterexample:
  "dashboardHandler exampleSys [''gamma''] ''today'' exampleNow
   = Return (HttpOK \<lparr>Stats = \<lparr>Success = 1, Failed = 0, Running = 0, Pending = 0, Total = 1\<rparr>,
                     Jobs = [exampleJob ''gamma''],
                     RateLimit = rateLimitInfoOf (exampleRate 4980)\<rparr>, exampleNow)
   \<and> CreatedAt (exampleJob ''gamma'') < dayStart exampleLoc exampleNow
   \<and> localDay exampleLoc (CreatedAt (exampleJob ''gamma'')) = localDay exampleLoc exampleNow - 1"
proof -
  have "mapOutcome (\<lambda>(r, (v, t)). (r, v))
          (dashboardHandler (recording exampleSys) [''gamma''] ''today'' (exampleNow, []))
        = dashboardHandler exampleSys [''gamma''] ''today'' exampleNow"
    by (rule dashboardHandler_forget)
  then have "dashboardHandler exampleSys [''gamma''] ''today'' exampleNow
   = Return (HttpOK \<lparr>Stats = \<lparr>Success = 1, Failed = 0, Running = 0, Pending = 0, Total = 1\<rparr>,
                     Jobs = [exampleJob ''gamma''],
                     RateLimit = rateLimitInfoOf (exampleRate 4980)\<rparr>, exampleNow)"
    by (simp add: ex_today_recorded)
  moreover have "CreatedAt (exampleJob ''gamma'') < dayStart exampleLoc exampleNow"
    by (simp add: ex_today_dayStart exampleJob_def Hour_def Minute_def Second_def)
  moreover have "localDay exampleLoc (CreatedAt (exampleJob ''gamma'')) = localDay exampleLoc exampleNow - 1"
    by code_simp
  ultimately show ?thesis by simp
qed

section \<open>Rounding to a double\<close>

lemma p2_pos: "0 < (2::rat) powi a"
  by simp

lemma p2_add: "(2::rat) powi (a + b) = 2 powi a * 2 powi b"
  by (simp add: power_int_add)

lemma p2_mono: "a \<le> b \<Longrightarrow> (2::rat) powi a \<le> 2 powi b"
  by (rule power_int_increasing) simp_all

lemma p2_nat: "0 \<le> a \<Longrightarrow> (2::rat) powi a = of_int (2 ^ nat a)"
  by (simp add: power_int_nonneg_exp)

lemma roundHalfEven_bounds: "\<lfloor>q\<rfloor> \<le> roundHalfEven q" "roundHalfEven q \<le> \<lceil>q\<rceil>"
proof -
  show "\<lfloor>q\<rfloor> \<le> roundHalfEven q"
    by (simp add: roundHalfEven_def Let_def)
  have "\<lceil>q\<rceil> = \<lfloor>q\<rfloor> + 1" if "q - of_int \<lfloor>q\<rfloor> \<noteq> 0"
    using that by (metis ceiling_altdef eq_iff_diff_eq_0 of_int_floor_cancel)
  then show "roundHalfEven q \<le> \<lceil>q\<rceil>"
    by (auto simp: roundHalfEven_def Let_def floor_le_ceiling)
qed

lemma roundHalfEven_of_int: "roundHalfEven (of_int n) = n"
  by (simp add: roundHalfEven_def)

lemma ilog2_bounds:
  assumes "0 < x"
  shows "2 powi (ilog2 x) \<le> x" and "x < 2 powi (ilog2 x + 1)"
proof -
  obtain p q where pq: "quotient_of x = (p, q)" by (metis prod.exhaust)
  have q: "0 < q" using pq by (rule quotient_of_denom_pos)
  have x: "x = of_int p / of_int q" using pq by (rule quotient_of_div)
  have p: "0 < p"
    using assms q unfolding x by (simp add: zero_less_divide_iff)
  define bp bq where "bp = bitlen p" and "bq = bitlen q"
  define k where "k = bp - bq"
  have bp: "1 \<le> bp" "(2::rat) powi (bp - 1) \<le> of_int p" "of_int p < (2::rat) powi bp"
  proof -
    show 1: "1 \<le> bp" using p by (simp add: bp_def bitlen_alt_def)
    have "2 ^ nat (bp - 1) \<le> p" "p < 2 ^ nat bp"
      using bitlen_bounds [OF p] by (simp_all add: bp_def)
    then have "(of_int (2 ^ nat (bp - 1)) :: rat) \<le> of_int p" "(of_int p :: rat) < of_int (2 ^ nat bp)"
      by (simp_all only: of_int_le_iff of_int_less_iff)
    then show "(2::rat) powi (bp - 1) \<le> of_int p" "of_int p < (2::rat) powi bp"
      using 1 by (simp_all add: p2_nat)
  qed
  have bq: "1 \<le> bq" "(2::rat) powi (bq - 1) \<le> of_int q" "of_int q < (2::rat) powi bq"
  proof -
    show 1: "1 \<le> bq" using q by (simp add: bq_def bitlen_alt_def)
    have "2 ^ nat (bq - 1) \<le> q" "q < 2 ^ nat bq"
      using bitlen_bounds [OF q] by (simp_all add: bq_def)
    then have "(of_int (2 ^ nat (bq - 1)) :: rat) \<le> of_int q" "(of_int q :: rat) < of_int (2 ^ nat bq)"
      by (simp_all only: of_int_le_iff of_int_less_iff)
    then show "(2::rat) powi (bq - 1) \<le> of_int q" "of_int q < (2::rat) powi bq"
      using 1 by (simp_all add: p2_nat)
  qed
  have qpos: "(0::rat) < of_int q" using q by simp
  have xq: "x * of_int q = of_int p" using qpos by (simp add: x)
  have upper: "x < 2 powi (k + 1)"
  proof -
    have "of_int p < (2::rat) powi (k + 1) * 2 powi (bq - 1)"
      using bp(3) by (simp add: k_def flip: p2_add)
    also have "\<dots> \<le> 2 powi (k + 1) * of_int q"
      using bq(2) by (intro mult_left_mono) simp_all
    finally have "x * of_int q < 2 powi (k + 1) * of_int q"
      by (simp only: xq)
    then show ?thesis using qpos by (simp only: mult_less_cancel_right_pos)
  qed
  have lower: "2 powi (k - 1) < x"
  proof -
    have "(2::rat) powi (k - 1) * of_int q < 2 powi (k - 1) * 2 powi bq"
      using bq(3) by (intro mult_strict_left_mono) simp_all
    also have "\<dots> = 2 powi (bp - 1)"
      by (simp add: k_def flip: p2_add)
    also have "\<dots> \<le> of_int p" by (rule bp(2))
    finally have "2 powi (k - 1) * of_int q < x * of_int q"
      by (simp only: xq)
    then show ?thesis using qpos by (simp only: mult_less_cancel_right_pos)
  qed
  have il: "ilog2 x = (if 2 powi k \<le> x then k else k - 1)"
    by (simp add: ilog2_def pq k_def bp_def bq_def Let_def)
  show "2 powi (ilog2 x) \<le> x"
    using lower by (simp add: il)
  show "x < 2 powi (ilog2 x + 1)"
    using upper by (simp add: il not_le)
qed

lemma float64_pos_shape:
  assumes "0 < x"
  defines "e \<equiv> ilog2 x - 52"
  defines "q \<equiv> x / 2 powi e"
  shows "float64 x = of_int (roundHalfEven q) * 2 powi e"
    and "2 powi (e + 52) \<le> x"
    and "(2::rat) ^ 52 \<le> q"
    and "x = q * 2 powi e"
proof -
  show "float64 x = of_int (roundHalfEven q) * 2 powi e"
    using assms(1) by (simp add: float64_def e_def q_def Let_def)
  show l: "2 powi (e + 52) \<le> x"
    using ilog2_bounds(1) [OF assms(1)] by (simp add: e_def)
  have "(2::rat) powi (e + 52) = 2 ^ 52 * 2 powi e"
    by (simp add: p2_add)
  with l have "2 ^ 52 * 2 powi e \<le> x" by simp
  then show "(2::rat) ^ 52 \<le> q"
    unfolding q_def using p2_pos [of e] by (simp add: le_divide_eq)
  show "x = q * 2 powi e"
    unfolding q_def using p2_pos [of e] by simp
qed

lemma scale_to:
  assumes "e \<le> E"
  shows "of_int B * (2::rat) powi E = of_int (B * 2 ^ nat (E - e)) * 2 powi e"
proof -
  have "(2::rat) powi E = 2 powi (E - e) * 2 powi e"
    by (simp flip: p2_add)
  also have "(2::rat) powi (E - e) = of_int (2 ^ nat (E - e))"
    using assms by (intro p2_nat) simp
  finally show ?thesis by simp
qed

lemma small_mantissa:
  assumes "\<bar>B\<bar> \<le> 2 ^ 53" "E < e"
  shows "of_int B * (2::rat) powi E \<le> 2 powi (e + 52)"
proof -
  have "(of_int B :: rat) \<le> of_int (2 ^ 53)"
    using assms(1) by (simp only: of_int_le_iff)
  then have "of_int B * (2::rat) powi E \<le> 2 ^ 53 * 2 powi E"
    by (intro mult_right_mono) simp_all
  also have "\<dots> = 2 powi (E + 53)"
    by (simp add: p2_add)
  also have "\<dots> \<le> 2 powi (e + 52)"
    using assms(2) by (intro p2_mono) simp
  finally show ?thesis .
qed

lemma float64_pos_le:
  assumes x: "0 < x" and le: "x \<le> of_int B * 2 powi E" and B: "\<bar>B\<bar> \<le> 2 ^ 53"
  shows "float64 x \<le> of_int B * 2 powi E"
proof -
  define e where "e = ilog2 x - 52"
  define q where "q = x / 2 powi e"
  note shape = float64_pos_shape [OF x, folded e_def, folded q_def]
  show ?thesis
  proof (cases "e \<le> E")
    case True
    define N where "N = B * 2 ^ nat (E - e)"
    have b: "of_int B * (2::rat) powi E = of_int N * 2 powi e"
      unfolding N_def using True by (rule scale_to)
    have "q * 2 powi e \<le> of_int N * 2 powi e"
      using le shape(4) b by simp
    then have "q \<le> of_int N"
      using p2_pos [of e] by (simp only: mult_le_cancel_right_pos)
    then have "\<lceil>q\<rceil> \<le> N" by (simp add: ceiling_le_iff)
    with roundHalfEven_bounds(2) [of q] have "roundHalfEven q \<le> N" by simp
    then have "(of_int (roundHalfEven q) :: rat) \<le> of_int N" by (simp only: of_int_le_iff)
    then have "of_int (roundHalfEven q) * (2::rat) powi e \<le> of_int N * 2 powi e"
      by (intro mult_right_mono) simp_all
    then show ?thesis by (simp only: shape(1) b)
  next
    case False
    then have "of_int B * (2::rat) powi E \<le> 2 powi (e + 52)"
      using B by (intro small_mantissa) simp_all
    with le shape(2) have eq: "x = 2 powi (e + 52)" "of_int B * (2::rat) powi E = x"
      by simp_all
    have "q * 2 powi e = 2 ^ 52 * 2 powi e"
      using eq(1) shape(4) by (simp add: p2_add)
    then have "q = of_int (2 ^ 52)"
      using p2_pos [of e] by simp
    then have "roundHalfEven q = 2 ^ 52"
      by (simp only: roundHalfEven_of_int)
    then have "float64 x = 2 ^ 52 * 2 powi e"
      by (simp add: shape(1))
    also have "\<dots> = x"
      by (simp add: eq(1) p2_add)
    finally show ?thesis by (simp add: eq(2))
  qed
qed

lemma float64_pos_ge:
  assumes x: "0 < x" and ge: "of_int A * 2 powi E \<le> x" and A: "\<bar>A\<bar> \<le> 2 ^ 53"
  shows "of_int A * 2 powi E \<le> float64 x"
proof -
  define e where "e = ilog2 x - 52"
  define q where "q = x / 2 powi e"
  note shape = float64_pos_shape [OF x, folded e_def, folded q_def]
  have fl: "(2::int) ^ 52 \<le> \<lfloor>q\<rfloor>"
    using shape(3) by (simp add: le_floor_iff)
  have m: "\<lfloor>q\<rfloor> \<le> roundHalfEven q"
    by (rule roundHalfEven_bounds)
  show ?thesis
  proof (cases "e \<le> E")
    case True
    define N where "N = A * 2 ^ nat (E - e)"
    have a: "of_int A * (2::rat) powi E = of_int N * 2 powi e"
      unfolding N_def using True by (rule scale_to)
    have "of_int N * 2 powi e \<le> q * 2 powi e"
      using ge shape(4) a by simp
    then have "of_int N \<le> q"
      using p2_pos [of e] by (simp only: mult_le_cancel_right_pos)
    then have "N \<le> \<lfloor>q\<rfloor>" by (simp add: le_floor_iff)
    with m have "N \<le> roundHalfEven q" by simp
    then have "(of_int N :: rat) \<le> of_int (roundHalfEven q)" by (simp only: of_int_le_iff)
    then have "of_int N * (2::rat) powi e \<le> of_int (roundHalfEven q) * 2 powi e"
      by (intro mult_right_mono) simp_all
    then show ?thesis by (simp only: shape(1) a)
  next
    case False
    then have "of_int A * (2::rat) powi E \<le> 2 powi (e + 52)"
      using A by (intro small_mantissa) simp_all
    also have "\<dots> = of_int (2 ^ 52) * 2 powi e"
      by (simp add: p2_add)
    also have "\<dots> \<le> of_int (roundHalfEven q) * 2 powi e"
      using fl m by (intro mult_right_mono) (simp_all only: of_int_le_iff, simp_all)
    finally show ?thesis by (simp only: shape(1))
  qed
qed

lemma float64_minus: "float64 (- x) = - float64 x"
  by (simp add: float64_def Let_def)

lemma float64_zero: "float64 0 = 0"
  by (simp add: float64_def)

text \<open>
  Rounding stays between any two doubles that enclose the number: a double is an integer
  of magnitude at most \<open>2 ^ 53\<close> times a power of two.
\<close>

lemma float64_le:
  assumes le: "x \<le> of_int B * 2 powi E" and B: "\<bar>B\<bar> \<le> 2 ^ 53"
  shows "float64 x \<le> of_int B * 2 powi E"
proof -
  consider "0 < x" | "x = 0" | "x < 0" by linarith
  then show ?thesis
  proof cases
    case 1
    then show ?thesis using le B by (rule float64_pos_le)
  next
    case 2
    with le show ?thesis by (simp add: float64_zero)
  next
    case 3
    then have "0 < - x" by simp
    moreover have "of_int (- B) * 2 powi E \<le> - x" using le by simp
    moreover have "\<bar>- B\<bar> \<le> 2 ^ 53" using B by simp
    ultimately have "of_int (- B) * 2 powi E \<le> float64 (- x)"
      by (rule float64_pos_ge)
    then show ?thesis by (simp add: float64_minus)
  qed
qed

lemma float64_ge:
  assumes ge: "of_int A * 2 powi E \<le> x" and A: "\<bar>A\<bar> \<le> 2 ^ 53"
  shows "of_int A * 2 powi E \<le> float64 x"
proof -
  consider "0 < x" | "x = 0" | "x < 0" by linarith
  then show ?thesis
  proof cases
    case 1
    then show ?thesis using ge A by (rule float64_pos_ge)
  next
    case 2
    with ge show ?thesis by (simp add: float64_zero)
  next
    case 3
    then have "0 < - x" by simp
    moreover have "- x \<le> of_int (- A) * 2 powi E" using ge by simp
    moreover have "\<bar>- A\<bar> \<le> 2 ^ 53" using A by simp
    ultimately have "float64 (- x) \<le> of_int (- A) * 2 powi E"
      by (rule float64_pos_le)
    then show ?thesis by (simp add: float64_minus)
  qed
qed

lemma float64_ge_int: "of_int n \<le> x \<Longrightarrow> \<bar>n\<bar> \<le> 2 ^ 53 \<Longrightarrow> of_int n \<le> float64 x"
  using float64_ge [of n 0 x] by simp

lemma float64_le_int: "x \<le> of_int n \<Longrightarrow> \<bar>n\<bar> \<le> 2 ^ 53 \<Longrightarrow> float64 x \<le> of_int n"
  using float64_le [of x n 0] by simp

section \<open>The float64 readings of a duration\<close>

lemma sdiv_smod_nonneg:
  fixes d U :: int
  assumes "0 \<le> d" "0 < U"
  shows "d sdiv U = d div U" "d smod U = d mod U"
  using assms by (auto simp: signed_divide_int_def signed_modulo_int_def sgn_if)

lemma sdiv_smod_nonpos:
  fixes d U :: int
  assumes "d \<le> 0" "0 < U"
  shows "d sdiv U \<le> 0" "d smod U \<le> 0"
proof -
  have "0 \<le> \<bar>d\<bar> div U" "0 \<le> \<bar>d\<bar> mod U"
    using assms by (simp_all add: pos_imp_zdiv_nonneg_iff)
  then show "d sdiv U \<le> 0" "d smod U \<le> 0"
    using assms by (auto simp: signed_divide_int_def signed_modulo_int_def sgn_if)
qed

lemma reading_nonpos:
  fixes d U :: int
  assumes "d \<le> 0" "0 < U"
  shows "float64 (of_int (d sdiv U) + float64 (of_int (d smod U) / of_int U)) \<le> 0"
proof -
  have "(of_int (d smod U) :: rat) / of_int U \<le> of_int 0"
    using sdiv_smod_nonpos(2) [OF assms] assms(2) by (simp add: divide_le_0_iff)
  then have "float64 (of_int (d smod U) / of_int U) \<le> of_int 0"
    by (rule float64_le_int) simp
  moreover have "(of_int (d sdiv U) :: rat) \<le> 0"
    using sdiv_smod_nonpos(1) [OF assms] by simp
  ultimately have "of_int (d sdiv U) + float64 (of_int (d smod U) / of_int U) \<le> of_int 0"
    by simp
  then have "float64 (of_int (d sdiv U) + float64 (of_int (d smod U) / of_int U)) \<le> of_int 0"
    by (rule float64_le_int) simp
  then show ?thesis by simp
qed

lemma reading_nonneg:
  fixes d U :: int
  assumes d: "0 \<le> d" and U: "0 < U" and h: "d div U + 1 \<le> 2 ^ 53"
  shows "of_int (d div U) \<le> float64 (of_int (d sdiv U) + float64 (of_int (d smod U) / of_int U))"
    and "float64 (of_int (d sdiv U) + float64 (of_int (d smod U) / of_int U)) \<le> of_int (d div U + 1)"
proof -
  let ?h = "d div U"
  let ?frac = "(of_int (d mod U) :: rat) / of_int U"
  have h0: "0 \<le> ?h" using d U by (simp add: pos_imp_zdiv_nonneg_iff)
  have m: "0 \<le> d mod U" "d mod U \<le> U"
    using U by (simp, intro less_imp_le pos_mod_bound)
  have "of_int 0 \<le> ?frac" using m(1) U by simp
  then have f0: "of_int 0 \<le> float64 ?frac" by (rule float64_ge_int) simp
  have "(of_int (d mod U) :: rat) \<le> of_int U" using m(2) by (simp only: of_int_le_iff)
  then have "?frac \<le> of_int 1" using U by (simp add: divide_le_eq)
  then have f1: "float64 ?frac \<le> of_int 1" by (rule float64_le_int) simp
  have "of_int ?h \<le> of_int ?h + float64 ?frac" using f0 by simp
  then have "of_int ?h \<le> float64 (of_int ?h + float64 ?frac)"
    using h0 h by (intro float64_ge_int) simp_all
  then show "of_int ?h \<le> float64 (of_int (d sdiv U) + float64 (of_int (d smod U) / of_int U))"
    by (simp only: sdiv_smod_nonneg [OF d U])
  have "of_int ?h + float64 ?frac \<le> of_int (?h + 1)" using f1 by simp
  then have "float64 (of_int ?h + float64 ?frac) \<le> of_int (?h + 1)"
    using h0 h by (intro float64_le_int) simp_all
  then show "float64 (of_int (d sdiv U) + float64 (of_int (d smod U) / of_int U)) \<le> of_int (?h + 1)"
    by (simp only: sdiv_smod_nonneg [OF d U])
qed

lemma reading_below_next:
  fixes d U :: int
  assumes d: "0 \<le> d" and U: "0 < U" and K: "U \<le> 2 ^ K" "K \<le> 53"
    and h: "(d div U + 1) * 2 ^ K \<le> 2 ^ 53"
  shows "float64 (of_int (d sdiv U) + float64 (of_int (d smod U) / of_int U))
         \<le> of_int ((d div U + 1) * 2 ^ K - 1) * 2 powi (- int K)"
proof -
  let ?h = "d div U"
  let ?frac = "(of_int (d mod U) :: rat) / of_int U"
  let ?P = "(2::rat) powi (- int K)"
  define c :: rat where "c = 2 ^ K"
  have c: "0 < c" by (simp add: c_def)
  have P: "?P = 1 / c"
    by (simp add: c_def power_int_minus_divide)
  have ofc: "(of_int (2 ^ K) :: rat) = c"
    by (simp add: c_def)
  have h0: "0 \<le> ?h" using d U by (simp add: pos_imp_zdiv_nonneg_iff)
  have m: "d mod U + 1 \<le> U" using U by (intro zless_imp_add1_zle pos_mod_bound)
  have Upos: "(0::rat) < of_int U" using U by simp
  have "(of_int (d mod U + 1) :: rat) \<le> of_int U"
    using m by (simp only: of_int_le_iff)
  then have "(of_int (d mod U) :: rat) \<le> of_int U - 1"
    by simp
  then have "?frac \<le> (of_int U - 1) / of_int U"
    using Upos by (simp only: divide_right_mono less_imp_le)
  also have "\<dots> = 1 - 1 / of_int U"
    using Upos by (simp add: diff_divide_distrib)
  finally have a: "?frac \<le> 1 - 1 / of_int U" .
  have "(of_int U :: rat) \<le> of_int (2 ^ K)" using K(1) by (simp only: of_int_le_iff)
  then have "(of_int U :: rat) \<le> c" by (simp only: ofc)
  then have "1 / c \<le> 1 / of_int U"
    using Upos by (simp add: frac_le)
  with a have "?frac \<le> 1 - 1 / c" by simp
  also have "\<dots> = (c - 1) * (1 / c)"
    using c by (simp add: diff_divide_distrib)
  also have "\<dots> = of_int (2 ^ K - 1) * ?P"
    by (simp only: P of_int_diff ofc of_int_1)
  finally have "?frac \<le> of_int (2 ^ K - 1) * ?P" .
  moreover have "\<bar>(2::int) ^ K - 1\<bar> \<le> 2 ^ 53"
  proof -
    have "(2::int) ^ K \<le> 2 ^ 53" using K(2) by (intro power_increasing) simp_all
    moreover have "(1::int) \<le> 2 ^ K" by simp
    ultimately show ?thesis by simp
  qed
  ultimately have f: "float64 ?frac \<le> of_int (2 ^ K - 1) * ?P"
    by (rule float64_le)
  have "of_int ?h + float64 ?frac \<le> of_int ?h + of_int (2 ^ K - 1) * ?P"
    using f by simp
  also have "\<dots> = of_int ?h + (c - 1) * (1 / c)"
    by (simp only: P of_int_diff ofc of_int_1)
  also have "\<dots> = ((of_int ?h + 1) * c - 1) * (1 / c)"
    using c by (simp add: field_simps)
  also have "\<dots> = of_int ((?h + 1) * 2 ^ K - 1) * ?P"
    by (simp only: P of_int_diff of_int_mult of_int_add ofc of_int_1)
  finally have "of_int ?h + float64 ?frac \<le> of_int ((?h + 1) * 2 ^ K - 1) * ?P" .
  moreover have "\<bar>(?h + 1) * 2 ^ K - 1\<bar> \<le> 2 ^ 53"
  proof -
    have "1 * 1 \<le> (?h + 1) * 2 ^ K"
      using h0 by (intro mult_mono) simp_all
    with h show ?thesis by simp
  qed
  ultimately have "float64 (of_int ?h + float64 ?frac) \<le> of_int ((?h + 1) * 2 ^ K - 1) * ?P"
    by (rule float64_le)
  then show ?thesis
    by (simp only: sdiv_smod_nonneg [OF d U])
qed

lemma toInt_between:
  assumes "of_int n \<le> f" "f < of_int n + 1" "0 \<le> n"
  shows "toInt f = n"
proof -
  have "0 \<le> f" using assms(1,3) by (meson of_int_0_le_iff order_trans)
  moreover have "\<lfloor>f\<rfloor> = n" using assms(1,2) by (simp add: floor_unique)
  ultimately show ?thesis by (simp add: toInt_def)
qed

lemma toInt_nonpos: "f \<le> 0 \<Longrightarrow> toInt f \<le> 0"
  by (auto simp: toInt_def ceiling_le_iff)

lemma toInt_mono_lower: "of_int n \<le> f \<Longrightarrow> 0 \<le> n \<Longrightarrow> n \<le> toInt f"
  by (auto simp: toInt_def le_floor_iff dest: order_trans [of "0::rat" "of_int n" f, rotated])

lemma toInt_upper: "f \<le> of_int n \<Longrightarrow> 0 \<le> f \<Longrightarrow> toInt f \<le> n"
  by (simp add: toInt_def floor_le_iff)

lemma div_bounds:
  fixes d U :: int
  assumes U: "0 < U"
  shows "a * U \<le> d \<Longrightarrow> a \<le> d div U" and "d < b * U \<Longrightarrow> d div U < b"
proof -
  have la: "d div U * U \<le> d"
  proof -
    have "d div U * U + d mod U = d" by (rule div_mult_mod_eq)
    moreover have "0 \<le> d mod U" using U by simp
    ultimately show ?thesis by linarith
  qed
  show "a \<le> d div U" if "a * U \<le> d"
  proof -
    have "a * U div U \<le> d div U" using that U by (rule zdiv_mono1)
    then show ?thesis using U by simp
  qed
  show "d div U < b" if "d < b * U"
  proof (rule ccontr)
    assume "\<not> d div U < b"
    then have "b \<le> d div U" by simp
    then have "b * U \<le> d div U * U" using U by (simp add: mult_right_mono)
    with la that show False by linarith
  qed
qed

lemma toInt_reading_exact:
  fixes d U :: int
  assumes d: "0 \<le> d" and U: "0 < U" and K: "U \<le> 2 ^ K" "K \<le> 53"
    and h: "(d div U + 1) * 2 ^ K \<le> 2 ^ 53"
  shows "toInt (float64 (of_int (d sdiv U) + float64 (of_int (d smod U) / of_int U))) = d div U"
proof (rule toInt_between)
  let ?h = "d div U"
  define c :: rat where "c = 2 ^ K"
  have c: "0 < c" by (simp add: c_def)
  have P: "(2::rat) powi (- int K) = 1 / c"
    by (simp add: c_def power_int_minus_divide)
  have ofc: "(of_int (2 ^ K) :: rat) = c"
    by (simp add: c_def)
  show h0: "0 \<le> ?h" using d U by (simp add: pos_imp_zdiv_nonneg_iff)
  have "(?h + 1) * 1 \<le> (?h + 1) * 2 ^ K"
    using h0 by (intro mult_left_mono) simp_all
  with h have "?h + 1 \<le> 2 ^ 53" by simp
  with d U show "of_int ?h \<le> float64 (of_int (d sdiv U) + float64 (of_int (d smod U) / of_int U))"
    by (rule reading_nonneg)
  have "float64 (of_int (d sdiv U) + float64 (of_int (d smod U) / of_int U))
        \<le> of_int ((?h + 1) * 2 ^ K - 1) * 2 powi (- int K)"
    using d U K h by (rule reading_below_next)
  also have "\<dots> = ((of_int ?h + 1) * c - 1) * (1 / c)"
    by (simp only: P of_int_diff of_int_mult of_int_add ofc of_int_1)
  also have "\<dots> = of_int ?h + 1 - 1 / c"
    using c by (simp add: field_simps)
  also have "\<dots> < of_int ?h + 1"
    using c by simp
  finally show "float64 (of_int (d sdiv U) + float64 (of_int (d smod U) / of_int U)) < of_int ?h + 1" .
qed

lemma unit_bounds:
  "0 < Hour" "0 < Minute" "Hour \<le> 2 ^ 42" "Minute \<le> 2 ^ 36"
  by (simp_all add: Hour_def Minute_def Second_def)

lemma Hours_reading:
  "Hours d = float64 (of_int (d sdiv Hour) + float64 (of_int (d smod Hour) / of_int Hour))"
  by (simp add: Hours_def Let_def Hour_def Minute_def Second_def)

lemma Minutes_reading:
  "Minutes d = float64 (of_int (d sdiv Minute) + float64 (of_int (d smod Minute) / of_int Minute))"
  by (simp add: Minutes_def Let_def Minute_def Second_def)

lemma Hours_exact:
  assumes "0 \<le> d" "d < 2048 * Hour"
  shows "toInt (Hours d) = d div Hour"
  unfolding Hours_reading
proof (rule toInt_reading_exact [where K = 42])
  have "d div Hour < 2048"
    using unit_bounds(1) assms(2) by (rule div_bounds)
  then have "d div Hour + 1 \<le> 2 ^ 11" by simp
  then have "(d div Hour + 1) * 2 ^ 42 \<le> 2 ^ 11 * 2 ^ 42"
    by (rule mult_right_mono) simp
  then show "(d div Hour + 1) * 2 ^ 42 \<le> 2 ^ 53" by simp
qed (rule assms unit_bounds | simp)+

lemma Minutes_exact:
  assumes "0 \<le> d" "d < 131072 * Minute"
  shows "toInt (Minutes d) = d div Minute"
  unfolding Minutes_reading
proof (rule toInt_reading_exact [where K = 36])
  have "d div Minute < 131072"
    using unit_bounds(2) assms(2) by (rule div_bounds)
  then have "d div Minute + 1 \<le> 2 ^ 17" by simp
  then have "(d div Minute + 1) * 2 ^ 36 \<le> 2 ^ 17 * 2 ^ 36"
    by (rule mult_right_mono) simp
  then show "(d div Minute + 1) * 2 ^ 36 \<le> 2 ^ 53" by simp
qed (rule assms unit_bounds | simp)+

lemma Hours_nonpos: "d \<le> 0 \<Longrightarrow> Hours d \<le> 0"
  unfolding Hours_reading by (rule reading_nonpos) (simp_all add: unit_bounds)

lemma Minutes_nonpos: "d \<le> 0 \<Longrightarrow> Minutes d \<le> 0"
  unfolding Minutes_reading by (rule reading_nonpos) (simp_all add: unit_bounds)

lemma below_next_form:
  "(of_int (n * 2 ^ K - 1) :: rat) * 2 powi (- int K) = of_int n - 1 / 2 ^ K"
proof -
  define c :: rat where "c = 2 ^ K"
  have c: "0 < c" by (simp add: c_def)
  have P: "(2::rat) powi (- int K) = 1 / c"
    by (simp add: c_def power_int_minus_divide)
  have ofc: "(of_int (2 ^ K) :: rat) = c"
    by (simp add: c_def)
  have "(of_int (n * 2 ^ K - 1) :: rat) * 2 powi (- int K) = (of_int n * c - 1) * (1 / c)"
    by (simp only: P of_int_diff of_int_mult ofc of_int_1)
  also have "\<dots> = of_int n - 1 / c"
    using c by (simp add: field_simps)
  finally show ?thesis by (simp only: c_def)
qed

lemma float64_below_next:
  assumes x: "x \<le> of_int n - 1 / 2 ^ K" and n: "0 < n" "n * 2 ^ K \<le> 2 ^ 53"
  shows "float64 x < of_int n"
proof -
  have "1 * 1 \<le> n * 2 ^ K"
    using n(1) by (intro mult_mono) simp_all
  with n(2) have B: "\<bar>n * 2 ^ K - 1\<bar> \<le> 2 ^ 53" by simp
  have "x \<le> of_int (n * 2 ^ K - 1) * 2 powi (- int K)"
    using x by (simp only: below_next_form)
  then have "float64 x \<le> of_int (n * 2 ^ K - 1) * 2 powi (- int K)"
    using B by (rule float64_le)
  then have "float64 x \<le> of_int n - 1 / 2 ^ K"
    by (simp only: below_next_form)
  moreover have "(0::rat) < 1 / 2 ^ K" by simp
  ultimately show ?thesis by linarith
qed

lemma day_of_hours: "0 \<le> d \<Longrightarrow> d div (24 * Hour) = d div Hour div 24"
  using zdiv_zmult2_eq [of 24 d Hour] by (simp add: mult.commute)

lemma hours_in_range:
  assumes "0 \<le> d" "d \<le> maxDuration"
  shows "0 \<le> d div Hour" "d div Hour + 1 \<le> 2 ^ 53"
proof -
  show "0 \<le> d div Hour"
    using assms(1) unit_bounds(1) by (simp add: pos_imp_zdiv_nonneg_iff)
  have "d < 2 ^ 52 * Hour"
    using assms(2) by (simp add: maxDuration_def Hour_def Minute_def Second_def)
  with unit_bounds(1) have "d div Hour < 2 ^ 52" by (rule div_bounds)
  then show "d div Hour + 1 \<le> 2 ^ 53" by simp
qed

lemma minutes_in_range:
  assumes "0 \<le> d" "d \<le> maxDuration"
  shows "0 \<le> d div Minute" "d div Minute + 1 \<le> 2 ^ 53"
proof -
  show "0 \<le> d div Minute"
    using assms(1) unit_bounds(2) by (simp add: pos_imp_zdiv_nonneg_iff)
  have "d < 2 ^ 52 * Minute"
    using assms(2) by (simp add: maxDuration_def Minute_def Second_def)
  with unit_bounds(2) have "d div Minute < 2 ^ 52" by (rule div_bounds)
  then show "d div Minute + 1 \<le> 2 ^ 53" by simp
qed

lemma Hours_enclosed:
  assumes "0 \<le> d" "d \<le> maxDuration"
  shows "of_int (d div Hour) \<le> Hours d" "Hours d \<le> of_int (d div Hour + 1)"
proof -
  note b = hours_in_range(2) [OF assms]
  show "of_int (d div Hour) \<le> Hours d"
    unfolding Hours_reading using assms(1) unit_bounds(1) b by (rule reading_nonneg)
  show "Hours d \<le> of_int (d div Hour + 1)"
    unfolding Hours_reading using assms(1) unit_bounds(1) b by (rule reading_nonneg)
qed

lemma Minutes_enclosed:
  assumes "0 \<le> d" "d \<le> maxDuration"
  shows "of_int (d div Minute) \<le> Minutes d" "Minutes d \<le> of_int (d div Minute + 1)"
proof -
  note b = minutes_in_range(2) [OF assms]
  show "of_int (d div Minute) \<le> Minutes d"
    unfolding Minutes_reading using assms(1) unit_bounds(2) b by (rule reading_nonneg)
  show "Minutes d \<le> of_int (d div Minute + 1)"
    unfolding Minutes_reading using assms(1) unit_bounds(2) b by (rule reading_nonneg)
qed

lemma days_nonpos: "d \<le> 0 \<Longrightarrow> toInt (float64 (Hours d / 24)) \<le> 0"
proof (rule toInt_nonpos)
  assume "d \<le> 0"
  then have "Hours d \<le> 0" by (rule Hours_nonpos)
  then have "Hours d / 24 \<le> of_int 0" by simp
  then have "float64 (Hours d / 24) \<le> of_int 0"
    by (rule float64_le_int) simp
  then show "float64 (Hours d / 24) \<le> 0" by simp
qed

lemma days_enclosed:
  assumes d: "0 \<le> d" "d \<le> maxDuration"
  shows "of_int (d div (24 * Hour)) \<le> float64 (Hours d / 24)"
    and "float64 (Hours d / 24) \<le> of_int (d div (24 * Hour) + 1)"
proof -
  define h where "h = d div Hour"
  define D where "D = h div 24"
  have D: "d div (24 * Hour) = D"
    using d(1) by (simp add: day_of_hours D_def h_def)
  have h: "0 \<le> h" "h + 1 \<le> 2 ^ 53"
    unfolding h_def using d by (rule hours_in_range)+
  define r where "r = h mod 24"
  have split: "h = 24 * D + r" by (simp add: D_def r_def)
  have r: "0 \<le> r" "r < 24" by (simp_all add: r_def)
  have D0: "0 \<le> D" using h(1) by (simp add: D_def)
  have DB: "\<bar>D\<bar> \<le> 2 ^ 53" "\<bar>D + 1\<bar> \<le> 2 ^ 53"
    using D0 h(2) split r by linarith+
  have lo: "of_int h \<le> Hours d" and hi: "Hours d \<le> of_int (h + 1)"
    unfolding h_def using d by (rule Hours_enclosed)+
  have "24 * D \<le> h" using split r by linarith
  then have "(of_int (24 * D) :: rat) \<le> of_int h" by (simp only: of_int_le_iff)
  with lo have "of_int D \<le> Hours d / 24" by simp
  then have "of_int D \<le> float64 (Hours d / 24)"
    using DB(1) by (rule float64_ge_int)
  then show "of_int (d div (24 * Hour)) \<le> float64 (Hours d / 24)"
    by (simp only: D)
  have "h + 1 \<le> 24 * (D + 1)" using split r by simp
  then have "(of_int (h + 1) :: rat) \<le> of_int (24 * (D + 1))" by (simp only: of_int_le_iff)
  with hi have "Hours d / 24 \<le> of_int (D + 1)" by simp
  then have "float64 (Hours d / 24) \<le> of_int (D + 1)"
    using DB(2) by (rule float64_le_int)
  then show "float64 (Hours d / 24) \<le> of_int (d div (24 * Hour) + 1)"
    by (simp only: D)
qed

lemma days_count:
  assumes d: "0 \<le> d" "d \<le> maxDuration"
  shows "toInt (float64 (Hours d / 24)) = d div (24 * Hour)
         \<or> toInt (float64 (Hours d / 24)) = d div (24 * Hour) + 1"
proof -
  let ?D = "d div (24 * Hour)"
  let ?f = "float64 (Hours d / 24)"
  have D0: "0 \<le> ?D"
    using d(1) unit_bounds(1) by (simp add: pos_imp_zdiv_nonneg_iff)
  have lo: "of_int ?D \<le> ?f" and hi: "?f \<le> of_int (?D + 1)"
    using d by (rule days_enclosed)+
  have "?D \<le> toInt ?f" using lo D0 by (rule toInt_mono_lower)
  moreover have "0 \<le> ?f"
    using lo D0 by (meson of_int_0_le_iff order_trans)
  with hi have "toInt ?f \<le> ?D + 1" by (rule toInt_upper)
  ultimately show ?thesis by linarith
qed

lemma days_exact:
  assumes d: "0 \<le> d" "d < 64 * (24 * Hour)"
  shows "toInt (float64 (Hours d / 24)) = d div (24 * Hour)"
proof -
  define h where "h = d div Hour"
  define D where "D = h div 24"
  have dmax: "d \<le> maxDuration"
    using d(2) by (simp add: maxDuration_def Hour_def Minute_def Second_def)
  have D: "d div (24 * Hour) = D"
    using d(1) by (simp add: day_of_hours D_def h_def)
  define r where "r = h mod 24"
  have split: "h = 24 * D + r" by (simp add: D_def r_def)
  have r: "0 \<le> r" "r < 24" by (simp_all add: r_def)
  have h0: "0 \<le> h"
    unfolding h_def using d(1) dmax by (rule hours_in_range)
  have D0: "0 \<le> D" using h0 by (simp add: D_def)
  have "d < 1536 * Hour" using d(2) by simp
  with unit_bounds(1) have h1: "h < 1536"
    unfolding h_def by (rule div_bounds)
  have D1: "D + 1 \<le> 64" using split r h1 by linarith
  have "(h + 1) * 2 ^ 42 \<le> 2 ^ 11 * 2 ^ 42"
    using h1 by (intro mult_right_mono) simp_all
  then have hb: "(d div Hour + 1) * 2 ^ 42 \<le> 2 ^ 53"
    by (simp add: h_def)
  have "Hours d \<le> of_int ((d div Hour + 1) * 2 ^ 42 - 1) * 2 powi (- int 42)"
    unfolding Hours_reading
    by (rule reading_below_next; (rule d unit_bounds hb | simp))
  then have up: "Hours d \<le> of_int (h + 1) - 1 / 2 ^ 42"
    by (simp only: below_next_form h_def)
  have "h + 1 \<le> 24 * (D + 1)" using split r by simp
  then have "(of_int (h + 1) :: rat) \<le> of_int (24 * (D + 1))" by (simp only: of_int_le_iff)
  then have "(of_int (h + 1) :: rat) \<le> 24 * of_int (D + 1)" by simp
  with up have x: "Hours d / 24 \<le> of_int (D + 1) - 1 / 2 ^ 47" by simp
  have "(D + 1) * 2 ^ 47 \<le> 2 ^ 6 * 2 ^ 47"
    using D1 by (intro mult_right_mono) simp_all
  then have "(D + 1) * 2 ^ 47 \<le> 2 ^ 53" by simp
  with x have "float64 (Hours d / 24) < of_int (D + 1)"
    using D0 by (intro float64_below_next [where K = 47]) simp_all
  then have "float64 (Hours d / 24) < of_int D + 1" by simp
  moreover have "of_int D \<le> float64 (Hours d / 24)"
    using days_enclosed(1) [OF d(1) dmax] by (simp only: D)
  ultimately have "toInt (float64 (Hours d / 24)) = D"
    using D0 by (intro toInt_between)
  then show ?thesis by (simp only: D)
qed

section \<open>The relative time of an instant\<close>

lemma Sub_range: "minDuration \<le> Sub now t" "Sub now t \<le> maxDuration"
  by (simp_all add: Sub_def minDuration_def maxDuration_def)

lemma Sub_exact: "minDuration \<le> now - t \<Longrightarrow> now - t \<le> maxDuration \<Longrightarrow> Sub now t = now - t"
  by (simp add: Sub_def)

lemma Sub_less: "now - t < c \<Longrightarrow> minDuration < c \<Longrightarrow> Sub now t < c"
  by (simp add: Sub_def)

lemma Sub_ge: "c \<le> now - t \<Longrightarrow> c \<le> maxDuration \<Longrightarrow> c \<le> Sub now t"
  by (simp add: Sub_def)

lemma unit_order:
  "minDuration < Minute" "Minute < Hour" "Hour < 24 * Hour" "24 * Hour < 64 * (24 * Hour)"
  "64 * (24 * Hour) \<le> maxDuration" "minDuration \<le> Minute" "Hour < 2048 * Hour"
  "Hour < 131072 * Minute" "24 * Hour < 2048 * Hour"
  by (simp_all add: minDuration_def maxDuration_def Hour_def Minute_def Second_def)

lemma div_zero: fixes d U :: int shows "0 \<le> d \<Longrightarrow> d < U \<Longrightarrow> d div U = 0"
  by (rule div_pos_pos_trivial)

lemma div_positive_int: fixes d U :: int shows "0 < U \<Longrightarrow> U \<le> d \<Longrightarrow> 0 < d div U"
  using div_bounds(1) [of U 1 d] by simp

lemma ago_just_now:
  assumes "Sub now t < Minute"
  shows "formatTimeAgoAt now t = ''just now''"
proof -
  define d where "d = Sub now t"
  have "toInt (float64 (Hours d / 24)) \<le> 0 \<and> toInt (Hours d) \<le> 0 \<and> toInt (Minutes d) \<le> 0"
  proof (cases "d \<le> 0")
    case True
    then show ?thesis
      by (intro conjI days_nonpos toInt_nonpos Hours_nonpos Minutes_nonpos)
  next
    case False
    then have d0: "0 \<le> d" by simp
    have dm: "d < Minute" using assms by (simp add: d_def)
    have dh: "d < Hour" using dm unit_order(2) by (rule less_trans)
    have dd: "d < 24 * Hour" using dh unit_order(3) by (rule less_trans)
    have "toInt (float64 (Hours d / 24)) = d div (24 * Hour)"
      using d0 less_trans [OF dd unit_order(4)] by (rule days_exact)
    moreover have "toInt (Hours d) = d div Hour"
      using d0 less_trans [OF dh unit_order(7)] by (rule Hours_exact)
    moreover have "toInt (Minutes d) = d div Minute"
      using d0 less_trans [OF dh unit_order(8)] by (rule Minutes_exact)
    ultimately show ?thesis
      by (simp only: div_zero [OF d0 dm] div_zero [OF d0 dh] div_zero [OF d0 dd] order_refl simp_thms)
  qed
  then show ?thesis
    by (simp add: formatTimeAgoAt_def Let_def d_def)
qed

lemma ago_minutes:
  assumes "Minute \<le> Sub now t" "Sub now t < Hour"
  shows "formatTimeAgoAt now t
         = fmt_d (Sub now t div Minute) @ '' minute'' @ pluralize (Sub now t div Minute) @ '' ago''"
proof -
  define d where "d = Sub now t"
  have dm: "Minute \<le> d" and dh: "d < Hour" using assms by (simp_all add: d_def)
  have d0: "0 \<le> d" using unit_bounds(2) dm by linarith
  have dd: "d < 24 * Hour" using dh unit_order(3) by (rule less_trans)
  have "toInt (float64 (Hours d / 24)) = d div (24 * Hour)"
    using d0 less_trans [OF dd unit_order(4)] by (rule days_exact)
  then have days: "toInt (float64 (Hours d / 24)) = 0"
    by (simp only: div_zero [OF d0 dd])
  have "toInt (Hours d) = d div Hour"
    using d0 less_trans [OF dh unit_order(7)] by (rule Hours_exact)
  then have hours: "toInt (Hours d) = 0"
    by (simp only: div_zero [OF d0 dh])
  have minutes: "toInt (Minutes d) = d div Minute"
    using d0 less_trans [OF dh unit_order(8)] by (rule Minutes_exact)
  have "0 < d div Minute"
    using unit_bounds(2) dm by (rule div_positive_int)
  then show ?thesis
    using days hours minutes by (simp add: formatTimeAgoAt_def Let_def d_def)
qed

lemma ago_hours:
  assumes "Hour \<le> Sub now t" "Sub now t < 24 * Hour"
  shows "formatTimeAgoAt now t
         = fmt_d (Sub now t div Hour) @ '' hour'' @ pluralize (Sub now t div Hour) @ '' ago''"
proof -
  define d where "d = Sub now t"
  have dh: "Hour \<le> d" and dd: "d < 24 * Hour" using assms by (simp_all add: d_def)
  have d0: "0 \<le> d" using unit_bounds(1) dh by linarith
  have "toInt (float64 (Hours d / 24)) = d div (24 * Hour)"
    using d0 less_trans [OF dd unit_order(4)] by (rule days_exact)
  then have days: "toInt (float64 (Hours d / 24)) = 0"
    by (simp only: div_zero [OF d0 dd])
  have hours: "toInt (Hours d) = d div Hour"
    using d0 less_trans [OF dd unit_order(9)] by (rule Hours_exact)
  have "0 < d div Hour"
    using unit_bounds(1) dh by (rule div_positive_int)
  then show ?thesis
    using days hours by (simp add: formatTimeAgoAt_def Let_def d_def)
qed

lemma day_positive: "24 * Hour \<le> d \<Longrightarrow> 0 < d div (24 * Hour)"
  using unit_bounds(1) by (intro div_positive_int) simp_all

lemma ago_days_exact:
  assumes "24 * Hour \<le> Sub now t" "Sub now t < 64 * (24 * Hour)"
  shows "formatTimeAgoAt now t
         = fmt_d (Sub now t div (24 * Hour)) @ '' day'' @ pluralize (Sub now t div (24 * Hour))
           @ '' ago''"
proof -
  define d where "d = Sub now t"
  have dd: "24 * Hour \<le> d" and du: "d < 64 * (24 * Hour)" using assms by (simp_all add: d_def)
  have d0: "0 \<le> d" using unit_bounds(1) dd by linarith
  have days: "toInt (float64 (Hours d / 24)) = d div (24 * Hour)"
    using d0 du by (rule days_exact)
  have "0 < d div (24 * Hour)"
    using dd by (rule day_positive)
  then show ?thesis
    using days by (simp add: formatTimeAgoAt_def Let_def d_def)
qed

lemma ago_days:
  assumes "24 * Hour \<le> Sub now t"
  shows "formatTimeAgoAt now t
           = fmt_d (Sub now t div (24 * Hour)) @ '' day'' @ pluralize (Sub now t div (24 * Hour))
             @ '' ago''
         \<or> formatTimeAgoAt now t
           = fmt_d (Sub now t div (24 * Hour) + 1) @ '' day''
             @ pluralize (Sub now t div (24 * Hour) + 1) @ '' ago''"
proof -
  define d where "d = Sub now t"
  have dd: "24 * Hour \<le> d" using assms by (simp add: d_def)
  have d0: "0 \<le> d" using unit_bounds(1) dd by linarith
  have dmax: "d \<le> maxDuration" unfolding d_def by (rule Sub_range)
  have pos: "0 < d div (24 * Hour)"
    using dd by (rule day_positive)
  from days_count [OF d0 dmax] show ?thesis
  proof
    assume "toInt (float64 (Hours d / 24)) = d div (24 * Hour)"
    then show ?thesis
      using pos by (simp add: formatTimeAgoAt_def Let_def d_def)
  next
    assume "toInt (float64 (Hours d / 24)) = d div (24 * Hour) + 1"
    then show ?thesis
      using pos by (simp add: formatTimeAgoAt_def Let_def d_def)
  qed
qed

lemma ex_day_rounding:
  "(4096 * (24 * Hour) - 1) div (24 * Hour) = 4095"
  "formatTimeAgoAt (4096 * (24 * Hour) - 1) 0 = ''4096 days ago''"
  by code_simp+

lemma ex_ago_counts: "fmt_d 1 = ''1''" "fmt_d 3 = ''3''"
  by code_simp+

text \<open>
  C7. With \<open>e = now - t\<close> the time elapsed since the instant \<open>t\<close>: from one day on the
  string is "<n> day(s) ago", where below 64 days \<open>n\<close> is the number of whole days in
  \<open>e\<close>, and from 64 days on \<open>n\<close> is the number of whole days in the (saturated)
  difference or one more, the count being read off a float64; from one hour to one day
  it is "<n> hour(s) ago" with \<open>n\<close> the whole hours; from one minute to one hour it is
  "<n> minute(s) ago" with \<open>n\<close> the whole minutes; below one minute, and for an instant
  that is not in the past, it is "just now". The "s" is there exactly when the count is
  not 1. formatTimeAgo reads the clock once and answers for that instant.
\<close>

theorem relative_time_by_elapsed:
  "(24 * Hour \<le> now - t \<and> now - t < 64 * (24 * Hour) \<longrightarrow>
      formatTimeAgoAt now t
      = fmt_d ((now - t) div (24 * Hour)) @ '' day'' @ pluralize ((now - t) div (24 * Hour))
        @ '' ago'')
   \<and> (64 * (24 * Hour) \<le> now - t \<longrightarrow>
      formatTimeAgoAt now t
        = fmt_d (Sub now t div (24 * Hour)) @ '' day'' @ pluralize (Sub now t div (24 * Hour))
          @ '' ago''
      \<or> formatTimeAgoAt now t
        = fmt_d (Sub now t div (24 * Hour) + 1) @ '' day''
          @ pluralize (Sub now t div (24 * Hour) + 1) @ '' ago'')
   \<and> (Hour \<le> now - t \<and> now - t < 24 * Hour \<longrightarrow>
      formatTimeAgoAt now t
      = fmt_d ((now - t) div Hour) @ '' hour'' @ pluralize ((now - t) div Hour) @ '' ago'')
   \<and> (Minute \<le> now - t \<and> now - t < Hour \<longrightarrow>
      formatTimeAgoAt now t
      = fmt_d ((now - t) div Minute) @ '' minute'' @ pluralize ((now - t) div Minute) @ '' ago'')
   \<and> (now - t < Minute \<longrightarrow> formatTimeAgoAt now t = ''just now'')
   \<and> pluralize k = (if k = 1 then [] else ''s'')
   \<and> formatTimeAgo S t w = (formatTimeAgoAt (fst (time_Now S w)) t, snd (time_Now S w))"
proof (intro conjI impI)
  show "pluralize k = (if k = 1 then [] else ''s'')"
    by (simp add: pluralize_def)
  show "formatTimeAgo S t w = (formatTimeAgoAt (fst (time_Now S w)) t, snd (time_Now S w))"
    by (simp add: formatTimeAgo_def split: prod.splits)
  show "formatTimeAgoAt now t = ''just now''" if "now - t < Minute"
    using that unit_order(1) by (intro ago_just_now Sub_less)
next
  assume a: "24 * Hour \<le> now - t \<and> now - t < 64 * (24 * Hour)"
  then have "minDuration \<le> now - t" "now - t \<le> maxDuration"
    using unit_order(1,2,3,5) by linarith+
  then have s: "Sub now t = now - t" by (rule Sub_exact)
  show "formatTimeAgoAt now t
      = fmt_d ((now - t) div (24 * Hour)) @ '' day'' @ pluralize ((now - t) div (24 * Hour))
        @ '' ago''"
    using ago_days_exact [of now t] a by (simp only: s simp_thms)
next
  assume a: "64 * (24 * Hour) \<le> now - t"
  have "24 * Hour \<le> now - t" using a unit_order(4) by linarith
  moreover have "24 * Hour \<le> maxDuration" using unit_order(4,5) by linarith
  ultimately have "24 * Hour \<le> Sub now t" by (rule Sub_ge)
  then show "formatTimeAgoAt now t
        = fmt_d (Sub now t div (24 * Hour)) @ '' day'' @ pluralize (Sub now t div (24 * Hour))
          @ '' ago''
      \<or> formatTimeAgoAt now t
        = fmt_d (Sub now t div (24 * Hour) + 1) @ '' day''
          @ pluralize (Sub now t div (24 * Hour) + 1) @ '' ago''"
    by (rule ago_days)
next
  assume a: "Hour \<le> now - t \<and> now - t < 24 * Hour"
  then have "minDuration \<le> now - t" "now - t \<le> maxDuration"
    using unit_order(1,2,3,4,5) by linarith+
  then have s: "Sub now t = now - t" by (rule Sub_exact)
  show "formatTimeAgoAt now t
      = fmt_d ((now - t) div Hour) @ '' hour'' @ pluralize ((now - t) div Hour) @ '' ago''"
    using ago_hours [of now t] a by (simp only: s simp_thms)
next
  assume a: "Minute \<le> now - t \<and> now - t < Hour"
  then have "minDuration \<le> now - t" "now - t \<le> maxDuration"
    using unit_order(1,2,3,4,5) by linarith+
  then have s: "Sub now t = now - t" by (rule Sub_exact)
  show "formatTimeAgoAt now t
      = fmt_d ((now - t) div Minute) @ '' minute'' @ pluralize ((now - t) div Minute) @ '' ago''"
    using ago_minutes [of now t] a by (simp only: s simp_thms)
qed

theorem relative_time_by_elapsed_witness:
  "formatTimeAgoAt exampleNow (exampleNow - 90000 * Second) = ''1 day ago''
   \<and> formatTimeAgoAt exampleNow (exampleNow - 3 * Hour) = ''3 hours ago''
   \<and> formatTimeAgoAt exampleNow (exampleNow - 45 * Second) = ''just now''
   \<and> formatTimeAgo exampleSys (exampleNow - 3 * Hour) exampleNow = (''3 hours ago'', exampleNow)"
proof -
  have d: "24 * Hour \<le> 90000 * Second" "90000 * Second < 64 * (24 * Hour)"
    "90000 * Second div (24 * Hour) = 1"
    and h: "Hour \<le> 3 * Hour" "3 * Hour < 24 * Hour" "3 * Hour div Hour = 3"
    and m: "45 * Second < Minute"
    by (simp_all add: Hour_def Minute_def Second_def)
  note day = relative_time_by_elapsed [of exampleNow "exampleNow - 90000 * Second" 1 exampleSys exampleNow]
  note hour = relative_time_by_elapsed [of exampleNow "exampleNow - 3 * Hour" 3 exampleSys exampleNow]
  note now = relative_time_by_elapsed [of exampleNow "exampleNow - 45 * Second" 1 exampleSys exampleNow]
  have "formatTimeAgoAt exampleNow (exampleNow - 90000 * Second) = ''1 day ago''"
    using day d by (simp add: ex_ago_counts)
  moreover have 3: "formatTimeAgoAt exampleNow (exampleNow - 3 * Hour) = ''3 hours ago''"
    using hour h by (simp add: ex_ago_counts)
  moreover have "formatTimeAgoAt exampleNow (exampleNow - 45 * Second) = ''just now''"
    using now m by simp
  moreover have "formatTimeAgo exampleSys (exampleNow - 3 * Hour) exampleNow = (''3 hours ago'', exampleNow)"
    using hour 3 by (simp add: exampleSys_simps)
  ultimately show ?thesis by simp
qed

section \<open>The duration of a run\<close>

lemma ex_formatDuration:
  "formatDuration (exampleNow - 2 * Hour) exampleNow = ''2h 0m 0s''"
  "formatDuration (exampleNow - 24 * Hour - 5 * Second) exampleNow = ''24h 0m 5s''"
  by code_simp+

text \<open>
  C4. A run of the week that reports when it started but neither when it was created nor
  when it was last updated: it passes the window test on its start instant and its
  relative start is "2 hours ago", yet its duration is "N/A" and not the "2h 0m 0s" from
  its start to the current instant. When the creation instant is reported as well, the
  duration without an update instant is counted from the creation, a day earlier, and
  not from the start.
\<close>

theorem duration_of_started_run_without_end:
  "runTimeOf (exampleRun 5 \<lparr>run_CreatedAt := None, run_UpdatedAt := None\<rparr>)
     = Some (exampleNow - 2 * Hour)
   \<and> runInPeriod exampleLoc ''week'' exampleNow (startTimeOf exampleLoc exampleNow ''week'')
       (exampleNow - 2 * Hour)
   \<and> runStarted exampleSys (exampleRun 5 \<lparr>run_CreatedAt := None, run_UpdatedAt := None\<rparr>)
       exampleNow = (''2 hours ago'', exampleNow)
   \<and> runDuration exampleSys (exampleRun 5 \<lparr>run_CreatedAt := None, run_UpdatedAt := None\<rparr>)
       exampleNow = (''N/A'', exampleNow)
   \<and> makeJob exampleSys ''gamma'' ''web''
       (exampleRun 5 \<lparr>run_CreatedAt := None, run_UpdatedAt := None\<rparr>) exampleNow
     = Return (exampleJob ''gamma'' \<lparr>Duration := ''N/A'', CreatedAt := exampleNow\<rparr>, exampleNow)
   \<and> formatDuration (exampleNow - 2 * Hour) exampleNow = ''2h 0m 0s''
   \<and> runDuration exampleSys (exampleRun 5 \<lparr>run_UpdatedAt := None\<rparr>) exampleNow
     = (''24h 0m 5s'', exampleNow)"
proof (intro conjI)
  let ?r = "exampleRun 5 \<lparr>run_CreatedAt := None, run_UpdatedAt := None\<rparr>"
  show "runTimeOf ?r = Some (exampleNow - 2 * Hour)"
    by (simp add: runTimeOf_def exampleRun_def)
  show "runInPeriod exampleLoc ''week'' exampleNow (startTimeOf exampleLoc exampleNow ''week'')
       (exampleNow - 2 * Hour)"
    by (simp only: ex_startTime_week ex_runInPeriod)
  show "runStarted exampleSys ?r exampleNow = (''2 hours ago'', exampleNow)"
    by (simp add: runStarted_def formatTimeAgo_def exampleSys_simps exampleRun_def ex_started)
  show "runDuration exampleSys ?r exampleNow = (''N/A'', exampleNow)"
    by (simp add: runDuration_def exampleRun_def)
  show "makeJob exampleSys ''gamma'' ''web'' ?r exampleNow
     = Return (exampleJob ''gamma'' \<lparr>Duration := ''N/A'', CreatedAt := exampleNow\<rparr>, exampleNow)"
    by (simp add: makeJob_def runDuration_def runStarted_def formatTimeAgo_def exampleSys_simps
        exampleRun_def exampleJob_def ex_started ex_fmt ex_status)
  show "formatDuration (exampleNow - 2 * Hour) exampleNow = ''2h 0m 0s''"
    by (rule ex_formatDuration)
  show "runDuration exampleSys (exampleRun 5 \<lparr>run_UpdatedAt := None\<rparr>) exampleNow
     = (''24h 0m 5s'', exampleNow)"
    by (simp add: runDuration_def exampleRun_def exampleSys_simps ex_formatDuration)
qed

section \<open>The duration string\<close>

lemma Seconds_reading:
  "Seconds d = float64 (of_int (d sdiv Second) + float64 (of_int (d smod Second) / of_int Second))"
  by (simp add: Seconds_def Let_def Second_def)

lemma second_bounds: "0 < Second" "Second \<le> 2 ^ 30"
  by (simp_all add: Second_def)

lemma Seconds_exact:
  assumes "0 \<le> d" "d < 8388608 * Second"
  shows "toInt (Seconds d) = d div Second"
  unfolding Seconds_reading
proof (rule toInt_reading_exact [where K = 30])
  have "d div Second < 8388608"
    using second_bounds(1) assms(2) by (rule div_bounds)
  then have "d div Second + 1 \<le> 2 ^ 23" by simp
  then have "(d div Second + 1) * 2 ^ 30 \<le> 2 ^ 23 * 2 ^ 30"
    by (rule mult_right_mono) simp
  then show "(d div Second + 1) * 2 ^ 30 \<le> 2 ^ 53" by simp
qed (rule assms second_bounds | simp)+

lemma smod_60: "0 \<le> n \<Longrightarrow> n smod 60 = n mod (60::int)"
  by (rule sdiv_smod_nonneg) simp_all

lemma formatDuration_exact:
  assumes d: "0 \<le> Sub end' start" "Sub end' start < 2048 * Hour"
  shows "formatDuration start end' =
     (let d = Sub end' start; hours = d div Hour; minutes = d div Minute mod 60;
          seconds = d div Second mod 60
      in if hours > 0 then fmt_d hours @ ''h '' @ fmt_d minutes @ ''m '' @ fmt_d seconds @ ''s''
         else if minutes > 0 then fmt_d minutes @ ''m '' @ fmt_d seconds @ ''s''
         else fmt_d seconds @ ''s'')"
proof -
  define d where "d = Sub end' start"
  have d0: "0 \<le> d" and d1: "d < 2048 * Hour" using d by (simp_all add: d_def)
  have "d < 131072 * Minute" "d < 8388608 * Second"
    using d1 by (simp_all add: Hour_def Minute_def Second_def)
  then have m: "toInt (Minutes d) = d div Minute" and s: "toInt (Seconds d) = d div Second"
    using d0 by (simp_all only: Minutes_exact Seconds_exact)
  have h: "toInt (Hours d) = d div Hour"
    using d0 d1 by (rule Hours_exact)
  have "0 \<le> d div Minute" "0 \<le> d div Second"
    using d0 unit_bounds(2) second_bounds(1) by (simp_all add: pos_imp_zdiv_nonneg_iff)
  then have "(d div Minute) smod 60 = d div Minute mod 60"
    "(d div Second) smod 60 = d div Second mod 60"
    by (simp_all only: smod_60)
  then show ?thesis
    by (simp only: formatDuration_def Let_def d_def [symmetric] h m s)
qed

lemma unit_products: "Hour = 60 * Minute" "Minute = 60 * Second"
  by (simp_all add: Hour_def Minute_def)

lemma ex_duration_counts: "fmt_d 1 = ''1''" "fmt_d 2 = ''2''" "fmt_d 5 = ''5''" "fmt_d 9 = ''9''"
  by code_simp+

text \<open>
  The duration string of formatDuration, with \<open>e = end - start\<close> the time elapsed: from
  one hour on (and below 2048 hours, where every float64 reading of the duration is
  exact) it is "<h>h <m>m <s>s" with the whole hours, the whole minutes modulo 60 and
  the whole seconds modulo 60; from one minute to one hour it is "<m>m <s>s"; below one
  minute it is "<s>s".
\<close>

theorem duration_format_by_elapsed:
  "(Hour \<le> end' - start \<and> end' - start < 2048 * Hour \<longrightarrow>
      formatDuration start end'
      = fmt_d ((end' - start) div Hour) @ ''h '' @ fmt_d ((end' - start) div Minute mod 60)
        @ ''m '' @ fmt_d ((end' - start) div Second mod 60) @ ''s'')
   \<and> (Minute \<le> end' - start \<and> end' - start < Hour \<longrightarrow>
      formatDuration start end'
      = fmt_d ((end' - start) div Minute) @ ''m '' @ fmt_d ((end' - start) div Second mod 60)
        @ ''s'')
   \<and> (0 \<le> end' - start \<and> end' - start < Minute \<longrightarrow>
      formatDuration start end' = fmt_d ((end' - start) div Second) @ ''s'')"
proof -
  define e where "e = end' - start"
  have exact: "formatDuration start end' =
      (if e div Hour > 0
       then fmt_d (e div Hour) @ ''h '' @ fmt_d (e div Minute mod 60) @ ''m ''
            @ fmt_d (e div Second mod 60) @ ''s''
       else if e div Minute mod 60 > 0
       then fmt_d (e div Minute mod 60) @ ''m '' @ fmt_d (e div Second mod 60) @ ''s''
       else fmt_d (e div Second mod 60) @ ''s'')"
    if "0 \<le> e" "e < 2048 * Hour"
  proof -
    have "minDuration \<le> e" "e \<le> maxDuration"
      using that by (simp_all add: minDuration_def maxDuration_def Hour_def Minute_def Second_def)
    then have s: "Sub end' start = e"
      unfolding e_def by (rule Sub_exact)
    show ?thesis
      using formatDuration_exact [of end' start] that by (simp only: s Let_def simp_thms)
  qed
  have hours: "formatDuration start end'
      = fmt_d (e div Hour) @ ''h '' @ fmt_d (e div Minute mod 60) @ ''m ''
        @ fmt_d (e div Second mod 60) @ ''s''"
    if "Hour \<le> e" "e < 2048 * Hour"
  proof -
    have "0 \<le> e" using that(1) unit_bounds(1) by linarith
    moreover have "0 < e div Hour" using unit_bounds(1) that(1) by (rule div_positive_int)
    ultimately show ?thesis using that(2) by (simp add: exact)
  qed
  have minutes: "formatDuration start end'
      = fmt_d (e div Minute) @ ''m '' @ fmt_d (e div Second mod 60) @ ''s''"
    if "Minute \<le> e" "e < Hour"
  proof -
    have e0: "0 \<le> e" using that(1) unit_bounds(2) by linarith
    have e1: "e < 2048 * Hour" using that(2) unit_order(7) by (rule less_trans)
    have h: "e div Hour = 0" using e0 that(2) by (rule div_zero)
    have pos: "0 < e div Minute" using unit_bounds(2) that(1) by (rule div_positive_int)
    have "e < 60 * Minute" using that(2) by (simp only: unit_products(1))
    with unit_bounds(2) have "e div Minute < 60" by (rule div_bounds)
    with pos have m: "e div Minute mod 60 = e div Minute" by simp
    show ?thesis using pos by (simp add: exact [OF e0 e1] h m)
  qed
  have seconds: "formatDuration start end' = fmt_d (e div Second) @ ''s''"
    if "0 \<le> e" "e < Minute"
  proof -
    have e1: "e < Hour" using that(2) unit_order(2) by (rule less_trans)
    have e2: "e < 2048 * Hour" using e1 unit_order(7) by (rule less_trans)
    have h: "e div Hour = 0" using that(1) e1 by (rule div_zero)
    have m: "e div Minute = 0" using that by (rule div_zero)
    have "e < 60 * Second" using that(2) by (simp only: unit_products(2))
    with second_bounds(1) have "e div Second < 60" by (rule div_bounds)
    moreover have "0 \<le> e div Second"
      using that(1) second_bounds(1) by (simp add: pos_imp_zdiv_nonneg_iff)
    ultimately have s: "e div Second mod 60 = e div Second" by simp
    show ?thesis by (simp add: exact [OF that(1) e2] h m s)
  qed
  show ?thesis
    unfolding e_def [symmetric] using hours minutes seconds by simp
qed

theorem duration_format_by_elapsed_witness:
  "formatDuration exampleNow (exampleNow + 3661 * Second) = ''1h 1m 1s''
   \<and> formatDuration exampleNow (exampleNow + 125 * Second) = ''2m 5s''
   \<and> formatDuration exampleNow (exampleNow + 9 * Second) = ''9s''"
proof -
  have a: "Hour \<le> 3661 * Second" "3661 * Second < 2048 * Hour" "3661 * Second div Hour = 1"
    "3661 * Second div Minute mod 60 = 1" "3661 * Second div Second mod 60 = 1"
    and b: "Minute \<le> 125 * Second" "125 * Second < Hour" "125 * Second div Minute = 2"
    "125 * Second div Second mod 60 = 5"
    and c: "0 \<le> 9 * Second" "9 * Second < Minute" "9 * Second div Second = 9"
    by (simp_all add: Hour_def Minute_def Second_def)
  have "formatDuration exampleNow (exampleNow + 3661 * Second) = ''1h 1m 1s''"
    using duration_format_by_elapsed [of "exampleNow + 3661 * Second" exampleNow] a
    by (simp add: ex_duration_counts)
  moreover have "formatDuration exampleNow (exampleNow + 125 * Second) = ''2m 5s''"
    using duration_format_by_elapsed [of "exampleNow + 125 * Second" exampleNow] b
    by (simp add: ex_duration_counts)
  moreover have "formatDuration exampleNow (exampleNow + 9 * Second) = ''9s''"
    using duration_format_by_elapsed [of "exampleNow + 9 * Second" exampleNow] c
    by (simp add: ex_duration_counts)
  ultimately show ?thesis by simp
qed

end
